theory Spec2Isabelle
  imports Main "HOL-Library.Multiset"
begin

section \<open>The WMDP translation and evaluation notebook\<close>

text \<open>
  A shallow embedding of \<^verbatim>\<open>src/wmdp_evaluation.ipynb\<close>: the dataset loader, the progress
  callback, the two batch stages, the report writer and the summary plot.

  A Python \<^verbatim>\<open>str\<close> is a list of Unicode code points (\<open>nat\<close>), so that non-ASCII text is
  one element per character, as \<^verbatim>\<open>len\<close> counts it. \<open>ascii\<close> writes a literal of the source.
  An exception is a value of \<open>exn\<close>, named by its class (\<open>Exception\<close> for any other
  class); a call that may raise returns \<open>exn + 'a\<close>. \<open>NotModelled\<close> is the answer of a library
  model on an input outside the part of the library it describes.
\<close>

type_synonym str = "nat list"

abbreviation ascii :: "string \<Rightarrow> str" where
  "ascii s \<equiv> map of_char s"

datatype exn =
    JSONDecodeError
  | csv_Error
  | SyntaxError
  | UnicodeEncodeError
  | NotModelled
  | Exception string

subsection \<open>The records of the pipeline\<close>

text \<open>
  \<^verbatim>\<open>all_entries\<close> holds one dict per dataset entry with the keys \<^verbatim>\<open>en_question\<close>,
  \<^verbatim>\<open>en_choices\<close> (already JSON text) and \<^verbatim>\<open>answer\<close>; the loop of the report writer calls it
  \<^verbatim>\<open>orig_entry\<close>, hence the prefix.
\<close>

record SourceRecord =
  question :: str
  choices_of :: "str list"
  answer_of :: int

record Entry =
  orig_en_question :: str
  orig_en_choices :: str
  orig_answer :: int

text \<open>
  The schema declares the choices fields \<^verbatim>\<open>List[str]\<close>, but nothing checks what the service
  returns and the report writer tests \<^verbatim>\<open>isinstance(..., list)\<close>: a choices field holds a list
  or a text. The records are polymorphic in the type of the choices cells: \<open>choices\<close> for
  what a stage returns, \<open>str\<close> for the dict \<^verbatim>\<open>out\<close> once the report writer has encoded them.
\<close>

datatype choices = ChoiceList "str list" | ChoiceText str

record 'c Translation =
  trad_zh_question :: str
  trad_zh_choices :: 'c
  en_question :: str
  en_choices :: 'c

record 'c TestQuestion = "'c Translation" +
  differences :: str
  score :: int

record 'c ReportRow = "'c TestQuestion" +
  answer :: int

subsection \<open>The progress tracker (class BatchCallback)\<close>

text \<open>
  The display is a \<^verbatim>\<open>tqdm\<close> bar. Of the library object the model keeps the expected total, the
  position \<open>n\<close> and the flag \<open>disable\<close>, which \<^verbatim>\<open>close()\<close> sets when it releases the display
  and which makes a later \<^verbatim>\<open>update\<close> a no-op.
\<close>

record tqdm =
  total :: nat
  n :: nat
  disable :: bool

definition tqdm_init :: "nat \<Rightarrow> tqdm" where
  "tqdm_init t = \<lparr>total = t, n = 0, disable = False\<rparr>"

definition tqdm_update :: "nat \<Rightarrow> tqdm \<Rightarrow> tqdm" where
  "tqdm_update k bar = (if disable bar then bar else bar\<lparr>n := n bar + k\<rparr>)"

definition tqdm_close :: "tqdm \<Rightarrow> tqdm" where
  "tqdm_close bar = bar\<lparr>disable := True\<rparr>"

record BatchCallback =
  count :: nat
  progress_bar :: tqdm

definition BatchCallback_init :: "nat \<Rightarrow> BatchCallback" where
  "BatchCallback_init t = \<lparr>count = 0, progress_bar = tqdm_init t\<rparr>"

definition on_llm_end :: "BatchCallback \<Rightarrow> BatchCallback" where
  "on_llm_end cb = cb\<lparr>count := count cb + 1, progress_bar := tqdm_update 1 (progress_bar cb)\<rparr>"

definition BatchCallback_enter :: "BatchCallback \<Rightarrow> BatchCallback" where
  "BatchCallback_enter cb = cb"

definition BatchCallback_exit :: "BatchCallback \<Rightarrow> BatchCallback" where
  "BatchCallback_exit cb = cb\<lparr>progress_bar := tqdm_close (progress_bar cb)\<rparr>"

definition BatchCallback_del :: "BatchCallback \<Rightarrow> BatchCallback" where
  "BatchCallback_del cb = cb\<lparr>progress_bar := tqdm_close (progress_bar cb)\<rparr>"

text \<open>
  The events a callback handler receives. \<^verbatim>\<open>BatchCallback\<close> overrides \<^verbatim>\<open>on_llm_end\<close> only;
  every other event reaches the method inherited from \<^verbatim>\<open>BaseCallbackHandler\<close>, which does
  nothing. A model call that fails is reported as \<open>LLM_error\<close>, never as \<open>LLM_end\<close>.
\<close>

datatype event =
    LLM_start | Chat_model_start | LLM_new_token | LLM_end | LLM_error
  | Chain_start | Chain_end | Chain_error

fun dispatch :: "BatchCallback \<Rightarrow> event \<Rightarrow> BatchCallback" where
  "dispatch cb LLM_end = on_llm_end cb"
| "dispatch cb _ = cb"

text \<open>
  \<^verbatim>\<open>with BatchCallback(total) as cb: body\<close>. The body receives the handler and leaves it in
  some state, with a result or an exception; \<^verbatim>\<open>__exit__\<close> runs either way and returns \<^verbatim>\<open>None\<close>,
  so an exception of the body propagates.
\<close>

definition with_BatchCallback ::
  "nat \<Rightarrow> (BatchCallback \<Rightarrow> BatchCallback \<times> (exn + 'a)) \<Rightarrow> BatchCallback \<times> (exn + 'a)" where
  "with_BatchCallback t body =
     (let cb = BatchCallback_enter (BatchCallback_init t);
          (cb', r) = body cb
      in (BatchCallback_exit cb', r))"

subsection \<open>The batch stages\<close>

text \<open>
  Modelled from the spec: \<^verbatim>\<open>Runnable.batch\<close> of the LangChain library, which is not part of
  the repository. The spec's glossary: a batch call "dispatches one LLM invocation per
  input record and returns all results, order-preserved"; failures "propagate uncaught".
  The invocation of the chain on one input is the parameter \<open>invoke\<close>.
\<close>

fun batch :: "('a \<Rightarrow> exn + 'b) \<Rightarrow> 'a list \<Rightarrow> exn + 'b list" where
  "batch invoke [] = Inr []"
| "batch invoke (x # xs) =
     (case invoke x of
        Inl e \<Rightarrow> Inl e
      | Inr y \<Rightarrow> (case batch invoke xs of Inl e \<Rightarrow> Inl e | Inr ys \<Rightarrow> Inr (y # ys)))"

definition translation_stage ::
  "(Entry \<Rightarrow> exn + choices Translation) \<Rightarrow> Entry list \<Rightarrow> exn + choices Translation list" where
  "translation_stage translation_chain all_entries = batch translation_chain all_entries"

definition evaluation_stage ::
  "(choices Translation \<Rightarrow> exn + choices TestQuestion) \<Rightarrow> choices Translation list
     \<Rightarrow> exn + choices TestQuestion list" where
  "evaluation_stage eval_chain trad_zh_translations = batch eval_chain trad_zh_translations"

subsection \<open>The summary plot\<close>

text \<open>
  Modelled from the spec: \<^verbatim>\<open>Axes.hist\<close> of matplotlib (numpy's histogram over explicit bin
  edges), which is not part of the repository. The spec: "integer-width bins spanning
  [0,11] (producing 11 bins covering scores 0 through 10 inclusive)". With edges
  \<open>e\<^sub>0, ..., e\<^sub>k\<close> bin \<open>i\<close> counts the values in \<open>[e\<^sub>i, e\<^sub>i\<^sub>+\<^sub>1)\<close>; the last bin is closed on
  the right as well. Values outside \<open>[e\<^sub>0, e\<^sub>k]\<close> are counted nowhere.
\<close>

definition range_py :: "nat \<Rightarrow> int list" where
  "range_py k = map int [0..<k]"

fun hist_counts :: "int list \<Rightarrow> int list \<Rightarrow> nat list" where
  "hist_counts xs (lo # hi # []) = [length (filter (\<lambda>x. lo \<le> x \<and> x \<le> hi) xs)]"
| "hist_counts xs (lo # hi # edges) =
     length (filter (\<lambda>x. lo \<le> x \<and> x < hi) xs) # hist_counts xs (hi # edges)"
| "hist_counts xs _ = []"

record figure =
  bin_edges :: "int list"
  bin_counts :: "nat list"
  xlabel :: string
  ylabel :: string
  title :: string

definition summary_plot :: "'c TestQuestion list \<Rightarrow> figure" where
  "summary_plot translation_evaluations =
     (let all_scores = map score translation_evaluations
      in \<lparr>bin_edges = range_py 12,
          bin_counts = hist_counts all_scores (range_py 12),
          xlabel = ''Scores'',
          ylabel = ''Count'',
          title = ''Histogram of Evaluation Scores''\<rparr>)"


subsection \<open>Text of integers\<close>

text \<open>\<^verbatim>\<open>str(i)\<close> for an \<^verbatim>\<open>int\<close>: the decimal digits, with a minus sign when negative.\<close>

function str_nat :: "nat \<Rightarrow> str" where
  "str_nat k = (if k < 10 then [48 + k] else str_nat (k div 10) @ [48 + k mod 10])"
  by pat_completeness auto
termination
  by (relation "measure (\<lambda>k. k)") auto

declare str_nat.simps [simp del]

definition str_int :: "int \<Rightarrow> str" where
  "str_int i = (if i < 0 then 45 # str_nat (nat (- i)) else str_nat (nat i))"

subsection \<open>JSON text of a list of strings\<close>

text \<open>
  Modelled from the spec: \<^verbatim>\<open>json.dumps(lst, ensure_ascii=False)\<close> of the Python standard
  library, for a list of strings; the library is not part of the repository, and the spec
  says only "JSON array text value". The encoding is the library's: a string is written
  between double quotes, each character matched by \<^verbatim>\<open>ESCAPE\<close> (a control character below
  0x20, the backslash, the double quote) is replaced by its entry of \<^verbatim>\<open>ESCAPE_DCT\<close>, every
  other character is kept; the items are separated by \<^verbatim>\<open>", "\<close>, and the empty list is \<^verbatim>\<open>[]\<close>.
\<close>

definition hex_digit :: "nat \<Rightarrow> nat" where
  "hex_digit d = (if d < 10 then 48 + d else 87 + d)"

fun hex :: "nat \<Rightarrow> nat \<Rightarrow> str" where
  "hex 0 c = []"
| "hex (Suc w) c = hex w (c div 16) @ [hex_digit (c mod 16)]"

definition ESCAPE :: "nat \<Rightarrow> bool" where
  "ESCAPE c \<longleftrightarrow> c < 32 \<or> c = 92 \<or> c = 34"

definition ESCAPE_DCT :: "nat \<Rightarrow> str" where
  "ESCAPE_DCT c =
     (if c = 92 then [92, 92]
      else if c = 34 then [92, 34]
      else if c = 8 then [92, 98]
      else if c = 12 then [92, 102]
      else if c = 10 then [92, 110]
      else if c = 13 then [92, 114]
      else if c = 9 then [92, 116]
      else [92, 117] @ hex 4 c)"

definition py_encode_basestring :: "str \<Rightarrow> str" where
  "py_encode_basestring s =
     34 # concat (map (\<lambda>c. if ESCAPE c then ESCAPE_DCT c else [c]) s) @ [34]"

fun str_join :: "str \<Rightarrow> str list \<Rightarrow> str" where
  "str_join sep [] = []"
| "str_join sep [x] = x"
| "str_join sep (x # y # ys) = x @ sep @ str_join sep (y # ys)"

definition json_dumps :: "str list \<Rightarrow> str" where
  "json_dumps lst =
     (if lst = [] then ascii ''[]''
      else 91 # str_join (ascii '', '') (map py_encode_basestring lst) @ [93])"

subsection \<open>Reading JSON text back\<close>

text \<open>
  Modelled from the spec: \<^verbatim>\<open>json.loads\<close> of the Python standard library (the spec's
  \<^verbatim>\<open>json_parse\<close>), which the notebook never calls and which is not part of the repository. The
  model follows the library's decoder (\<^verbatim>\<open>scanstring\<close>, \<^verbatim>\<open>JSONArray\<close>, \<^verbatim>\<open>decode\<close>) on arrays of
  strings: white space is skipped where the library skips it, a string ends at the first
  unescaped double quote, a control character below 0x20 inside a string is an error, an
  escape is one of the eight of \<^verbatim>\<open>BACKSLASH\<close> or \<^verbatim>\<open>\uXXXX\<close> with four hexadecimal digits, and
  a high surrogate followed by a low one is combined. A document that holds a value other
  than a string inside the array, or whose top-level value is not an array, is answered by
  \<open>NotModelled\<close>; malformed text is a \<open>JSONDecodeError\<close>.
\<close>

definition hex_value :: "nat \<Rightarrow> nat option" where
  "hex_value c =
     (if 48 \<le> c \<and> c \<le> 57 then Some (c - 48)
      else if 97 \<le> c \<and> c \<le> 102 then Some (c - 87)
      else if 65 \<le> c \<and> c \<le> 70 then Some (c - 55)
      else None)"

fun hex_number :: "nat \<Rightarrow> str \<Rightarrow> nat option" where
  "hex_number acc [] = Some acc"
| "hex_number acc (c # cs) =
     (case hex_value c of None \<Rightarrow> None | Some d \<Rightarrow> hex_number (16 * acc + d) cs)"

definition decode_uXXXX :: "str \<Rightarrow> nat option" where
  "decode_uXXXX s = (if length s < 4 then None else hex_number 0 (take 4 s))"

definition BACKSLASH :: "nat \<Rightarrow> nat option" where
  "BACKSLASH esc =
     (if esc = 34 then Some 34
      else if esc = 92 then Some 92
      else if esc = 47 then Some 47
      else if esc = 98 then Some 8
      else if esc = 102 then Some 12
      else if esc = 110 then Some 10
      else if esc = 114 then Some 13
      else if esc = 116 then Some 9
      else None)"

fun scanstring :: "str \<Rightarrow> str \<Rightarrow> exn + (str \<times> str)" where
  "scanstring [] chunks = Inl JSONDecodeError"
| "scanstring (c # s) chunks =
     (if c = 34 then Inr (rev chunks, s)
      else if c < 32 then Inl JSONDecodeError
      else if c \<noteq> 92 then scanstring s (c # chunks)
      else (case s of
              [] \<Rightarrow> Inl JSONDecodeError
            | esc # s' \<Rightarrow>
                if esc \<noteq> 117 then
                  (case BACKSLASH esc of
                     None \<Rightarrow> Inl JSONDecodeError
                   | Some char \<Rightarrow> scanstring s' (char # chunks))
                else
                  (case decode_uXXXX s' of
                     None \<Rightarrow> Inl JSONDecodeError
                   | Some uni \<Rightarrow>
                       if 55296 \<le> uni \<and> uni \<le> 56319 \<and> take 2 (drop 4 s') = [92, 117] then
                         (case decode_uXXXX (drop 6 s') of
                            None \<Rightarrow> Inl JSONDecodeError
                          | Some uni2 \<Rightarrow>
                              if 56320 \<le> uni2 \<and> uni2 \<le> 57343
                              then scanstring (drop 10 s')
                                     ((65536 + ((uni - 55296) * 1024 + (uni2 - 56320))) # chunks)
                              else scanstring (drop 4 s') (uni # chunks))
                       else scanstring (drop 4 s') (uni # chunks))))"

definition WHITESPACE :: "nat \<Rightarrow> bool" where
  "WHITESPACE c \<longleftrightarrow> c = 32 \<or> c = 9 \<or> c = 10 \<or> c = 13"

definition starts_other_value :: "nat \<Rightarrow> bool" where
  "starts_other_value c \<longleftrightarrow>
     c = 123 \<or> c = 91 \<or> c = 110 \<or> c = 116 \<or> c = 102 \<or> c = 45 \<or> (48 \<le> c \<and> c \<le> 57)
       \<or> c = 78 \<or> c = 73"

definition scan_once_str :: "str \<Rightarrow> exn + (str \<times> str)" where
  "scan_once_str s =
     (case s of
        [] \<Rightarrow> Inl JSONDecodeError
      | c # s' \<Rightarrow>
          if c = 34 then scanstring s' []
          else if starts_other_value c then Inl NotModelled
          else Inl JSONDecodeError)"

lemma scanstring_shorter: "scanstring s chunks = Inr (v, rest) \<Longrightarrow> length rest < length s"
proof (induction "length s" arbitrary: s chunks rule: less_induct)
  case less
  show ?case
  proof (cases s)
    case Nil
    with less.prems show ?thesis by simp
  next
    case (Cons c s1)
    have IH: "\<And>t ch. scanstring t ch = Inr (v, rest) \<Longrightarrow> length t \<le> length s1 \<Longrightarrow> length rest < length t"
    proof -
      fix t ch assume "scanstring t ch = Inr (v, rest)" "length t \<le> length s1"
      then show "length rest < length t" using less.hyps[of t ch] Cons by simp
    qed
    from less.prems show ?thesis unfolding Cons
      by (auto split: if_splits list.splits option.splits dest!: IH)
  qed
qed


fun skip_ws :: "str \<Rightarrow> str" where
  "skip_ws [] = []"
| "skip_ws (c # s) = (if WHITESPACE c then skip_ws s else c # s)"

lemma length_skip_ws: "length (skip_ws s) \<le> length s"
  by (induction s) auto

lemma scan_once_str_shorter: "scan_once_str s = Inr (v, rest) \<Longrightarrow> length rest < length s"
  by (auto simp: scan_once_str_def split: list.splits if_splits dest!: scanstring_shorter)

function array_items :: "str \<Rightarrow> str list \<Rightarrow> exn + (str list \<times> str)" where
  "array_items s vals =
     (case scan_once_str s of
        Inl e \<Rightarrow> Inl e
      | Inr (v, rest) \<Rightarrow>
          (case skip_ws rest of
             [] \<Rightarrow> Inl JSONDecodeError
           | nextchar # s' \<Rightarrow>
               if nextchar = 93 then Inr (vals @ [v], s')
               else if nextchar \<noteq> 44 then Inl JSONDecodeError
               else array_items (skip_ws s') (vals @ [v])))"
  by pat_completeness auto
termination
proof (relation "measure (\<lambda>(s, vals). length s)")
  show "wf (measure (\<lambda>(s, vals). length s))" by simp
next
  fix s :: str and vals :: "str list" and x2 v rest nextchar s'
  assume a: "scan_once_str s = Inr x2" "(v, rest) = x2" "skip_ws rest = nextchar # s'"
  from a(1,2) have "length rest < length s" using scan_once_str_shorter[of s v rest] by simp
  moreover from a(3) have "length s' < length rest"
    using length_skip_ws[of rest] by simp
  moreover have "length (skip_ws s') \<le> length s'" by (rule length_skip_ws)
  ultimately show "((skip_ws s', vals @ [v]), (s, vals)) \<in> measure (\<lambda>(s, vals). length s)"
    by simp
qed

declare array_items.simps [simp del]

definition JSONArray :: "str \<Rightarrow> exn + (str list \<times> str)" where
  "JSONArray s =
     (case skip_ws s of
        [] \<Rightarrow> Inl JSONDecodeError
      | nextchar # s' \<Rightarrow> if nextchar = 93 then Inr ([], s') else array_items (nextchar # s') [])"

definition json_loads :: "str \<Rightarrow> exn + str list" where
  "json_loads s =
     (case s of
        [] \<Rightarrow> Inl JSONDecodeError
      | c0 # _ \<Rightarrow>
          if c0 = 65279 then Inl JSONDecodeError
          else (case skip_ws s of
                  [] \<Rightarrow> Inl JSONDecodeError
                | c # s' \<Rightarrow>
                    if c = 91 then
                      (case JSONArray s' of
                         Inl e \<Rightarrow> Inl e
                       | Inr (obj, rest) \<Rightarrow>
                           if skip_ws rest = [] then Inr obj else Inl JSONDecodeError)
                    else if c = 34 \<or> starts_other_value c then Inl NotModelled
                    else Inl JSONDecodeError))"

subsection \<open>The dataset loader\<close>

definition load_entry :: "SourceRecord \<Rightarrow> Entry" where
  "load_entry entry =
     \<lparr>orig_en_question = question entry,
      orig_en_choices = json_dumps (choices_of entry),
      orig_answer = answer_of entry\<rparr>"

definition load_entries :: "SourceRecord list \<Rightarrow> Entry list" where
  "load_entries ds = map load_entry ds"

subsection \<open>The CSV writer\<close>

text \<open>
  \<^verbatim>\<open>csv.writer.writerow\<close> in the \<^verbatim>\<open>excel\<close> dialect: delimiter \<^verbatim>\<open>,\<close> (44), quote character \<^verbatim>\<open>"\<close>
  (34), \<^verbatim>\<open>doublequote\<close>, line terminator CR LF, \<^verbatim>\<open>QUOTE_MINIMAL\<close>, no escape character. A
  field is quoted when it holds the delimiter, the quote character, CR or LF; a quote
  character inside is doubled. In the interpreter the notebook records (Python 3.10) "no
  escape character" is stored as the character 0, and a field holding that character
  raises \<^verbatim>\<open>need to escape, but no escapechar set\<close>. A record whose only field is empty is
  written as \<^verbatim>\<open>""\<close>.
\<close>

definition needs_quoting :: "nat \<Rightarrow> bool" where
  "needs_quoting c \<longleftrightarrow> c = 44 \<or> c = 34 \<or> c = 13 \<or> c = 10"

definition join_append :: "str \<Rightarrow> exn + str" where
  "join_append field =
     (if 0 \<in> set field then Inl csv_Error
      else if list_ex needs_quoting field
           then Inr (34 # concat (map (\<lambda>c. if c = 34 then [34, 34] else [c]) field) @ [34])
           else Inr field)"

fun join_fields :: "str list \<Rightarrow> exn + str list" where
  "join_fields [] = Inr []"
| "join_fields (f # fs) =
     (case join_append f of
        Inl e \<Rightarrow> Inl e
      | Inr p \<Rightarrow> (case join_fields fs of Inl e \<Rightarrow> Inl e | Inr ps \<Rightarrow> Inr (p # ps)))"

definition csv_writerow :: "str list \<Rightarrow> exn + str" where
  "csv_writerow row =
     (case join_fields row of
        Inl e \<Rightarrow> Inl e
      | Inr parts \<Rightarrow>
          (let rec = str_join [44] parts
           in Inr ((if row \<noteq> [] \<and> rec = [] then [34, 34] else rec) @ [13, 10])))"

subsection \<open>The CSV reader\<close>

text \<open>
  Modelled from the spec: \<^verbatim>\<open>csv.reader\<close> of the Python standard library in the \<^verbatim>\<open>excel\<close>
  dialect, the "standard CSV reader" of the spec; the notebook never reads the file back.
  The model is the library's state machine with the dialect's constants filled in (no
  escape character, \<^verbatim>\<open>doublequote\<close>, not \<^verbatim>\<open>strict\<close>, no \<^verbatim>\<open>skipinitialspace\<close>): the reader takes
  the text line by line, as a file opened with \<^verbatim>\<open>newline=''\<close> yields it (a line ends after LF,
  after CR LF, or after a CR that no LF follows), feeds each character of the line to
  \<open>parse_process_char\<close> and then the end-of-line mark 0. In Python 3.10 a character 0 in a
  line is the error \<^verbatim>\<open>line contains NUL\<close>. The reader's limit on the size of a field
  (\<^verbatim>\<open>csv.field_size_limit\<close>, 131072 characters unless changed) is not modelled.
\<close>

datatype ParserState =
  START_RECORD | START_FIELD | IN_FIELD | IN_QUOTED_FIELD | QUOTE_IN_QUOTED_FIELD | EAT_CRNL

record Reader =
  state :: ParserState
  row :: "str list"
  field :: str

definition parse_reset :: Reader where
  "parse_reset = \<lparr>state = START_RECORD, row = [], field = []\<rparr>"

definition parse_save_field :: "Reader \<Rightarrow> Reader" where
  "parse_save_field rd = rd\<lparr>row := row rd @ [field rd], field := []\<rparr>"

definition parse_add_char :: "Reader \<Rightarrow> nat \<Rightarrow> Reader" where
  "parse_add_char rd c = rd\<lparr>field := field rd @ [c]\<rparr>"

definition start_field :: "Reader \<Rightarrow> nat \<Rightarrow> exn + Reader" where
  "start_field rd c =
     (if c = 10 \<or> c = 13 \<or> c = 0
      then Inr ((parse_save_field rd)\<lparr>state := (if c = 0 then START_RECORD else EAT_CRNL)\<rparr>)
      else if c = 34 then Inr (rd\<lparr>state := IN_QUOTED_FIELD\<rparr>)
      else if c = 44 then Inr (parse_save_field rd)
      else Inr ((parse_add_char rd c)\<lparr>state := IN_FIELD\<rparr>))"

definition parse_process_char :: "Reader \<Rightarrow> nat \<Rightarrow> exn + Reader" where
  "parse_process_char rd c =
     (case state rd of
        START_RECORD \<Rightarrow>
          if c = 0 then Inr rd
          else if c = 10 \<or> c = 13 then Inr (rd\<lparr>state := EAT_CRNL\<rparr>)
          else start_field (rd\<lparr>state := START_FIELD\<rparr>) c
      | START_FIELD \<Rightarrow> start_field rd c
      | IN_FIELD \<Rightarrow>
          if c = 10 \<or> c = 13 \<or> c = 0
          then Inr ((parse_save_field rd)\<lparr>state := (if c = 0 then START_RECORD else EAT_CRNL)\<rparr>)
          else if c = 44 then Inr ((parse_save_field rd)\<lparr>state := START_FIELD\<rparr>)
          else Inr (parse_add_char rd c)
      | IN_QUOTED_FIELD \<Rightarrow>
          if c = 0 then Inr rd
          else if c = 34 then Inr (rd\<lparr>state := QUOTE_IN_QUOTED_FIELD\<rparr>)
          else Inr (parse_add_char rd c)
      | QUOTE_IN_QUOTED_FIELD \<Rightarrow>
          if c = 34 then Inr ((parse_add_char rd c)\<lparr>state := IN_QUOTED_FIELD\<rparr>)
          else if c = 44 then Inr ((parse_save_field rd)\<lparr>state := START_FIELD\<rparr>)
          else if c = 10 \<or> c = 13 \<or> c = 0
          then Inr ((parse_save_field rd)\<lparr>state := (if c = 0 then START_RECORD else EAT_CRNL)\<rparr>)
          else Inr ((parse_add_char rd c)\<lparr>state := IN_FIELD\<rparr>)
      | EAT_CRNL \<Rightarrow>
          if c = 10 \<or> c = 13 then Inr rd
          else if c = 0 then Inr (rd\<lparr>state := START_RECORD\<rparr>)
          else Inl csv_Error)"

fun process_line :: "Reader \<Rightarrow> str \<Rightarrow> exn + Reader" where
  "process_line rd [] = parse_process_char rd 0"
| "process_line rd (c # line) =
     (if c = 0 then Inl csv_Error
      else (case parse_process_char rd c of
              Inl e \<Rightarrow> Inl e
            | Inr rd' \<Rightarrow> process_line rd' line))"

fun read_rows :: "Reader \<Rightarrow> str list \<Rightarrow> exn + str list list" where
  "read_rows rd [] =
     (if field rd \<noteq> [] \<or> state rd = IN_QUOTED_FIELD
      then Inr [row (parse_save_field rd)] else Inr [])"
| "read_rows rd (line # lines) =
     (case process_line rd line of
        Inl e \<Rightarrow> Inl e
      | Inr rd' \<Rightarrow>
          if state rd' \<noteq> START_RECORD then read_rows rd' lines
          else (case read_rows parse_reset lines of
                  Inl e \<Rightarrow> Inl e
                | Inr rows \<Rightarrow> Inr (row rd' # rows)))"

fun readlines :: "str \<Rightarrow> str \<Rightarrow> str list" where
  "readlines [] line = (if line = [] then [] else [line])"
| "readlines (c # s) line =
     (if c = 10 then (line @ [c]) # readlines s []
      else if c = 13 then
        (case s of
           [] \<Rightarrow> [line @ [c]]
         | d # s' \<Rightarrow> if d = 10 then (line @ [c, d]) # readlines s' []
                     else (line @ [c]) # readlines s [])
      else readlines s (line @ [c]))"

definition csv_reader :: "str \<Rightarrow> exn + str list list" where
  "csv_reader text = read_rows parse_reset (readlines text [])"

subsection \<open>The report writer\<close>

text \<open>
  \<^verbatim>\<open>csv.DictWriter\<close>: \<open>getitem\<close> is the dict \<^verbatim>\<open>out\<close> read by key, \<open>dict_to_list\<close> lists
  the values in the order of \<open>fieldnames\<close> (a missing key would give the empty \<^verbatim>\<open>restval\<close>),
  and the writer takes \<^verbatim>\<open>str\<close> of a value that is not text.
\<close>

definition fieldnames :: "string list" where
  "fieldnames = [''en_question'', ''en_choices'', ''trad_zh_question'', ''trad_zh_choices'',
                 ''answer'', ''score'', ''differences'']"

datatype cell = Text str | Number int

definition getitem :: "str ReportRow \<Rightarrow> string \<Rightarrow> cell option" where
  "getitem out key =
     (if key = ''trad_zh_question'' then Some (Text (trad_zh_question out))
      else if key = ''trad_zh_choices'' then Some (Text (trad_zh_choices out))
      else if key = ''en_question'' then Some (Text (en_question out))
      else if key = ''en_choices'' then Some (Text (en_choices out))
      else if key = ''differences'' then Some (Text (differences out))
      else if key = ''score'' then Some (Number (score out))
      else if key = ''answer'' then Some (Number (answer out))
      else None)"

definition dict_to_list :: "str ReportRow \<Rightarrow> cell list" where
  "dict_to_list out = map (\<lambda>key. case getitem out key of Some v \<Rightarrow> v | None \<Rightarrow> Text []) fieldnames"

fun cell_str :: "cell \<Rightarrow> str" where
  "cell_str (Text s) = s"
| "cell_str (Number i) = str_int i"

definition row_fields :: "str ReportRow \<Rightarrow> str list" where
  "row_fields out = map cell_str (dict_to_list out)"

definition DictWriter_writerow :: "str ReportRow \<Rightarrow> exn + str" where
  "DictWriter_writerow out = csv_writerow (row_fields out)"

definition DictWriter_writeheader :: "exn + str" where
  "DictWriter_writeheader = csv_writerow (map ascii fieldnames)"

text \<open>
  The two \<^verbatim>\<open>isinstance(..., list)\<close> guards: a list is replaced by its JSON text, a text
  stays as it is. \<open>make_out\<close> is the dict \<^verbatim>\<open>out\<close> after the copy, the answer and the guards.
\<close>

fun encode_choices :: "choices \<Rightarrow> str" where
  "encode_choices (ChoiceList lst) = json_dumps lst"
| "encode_choices (ChoiceText t) = t"

definition make_out :: "choices TestQuestion \<Rightarrow> Entry \<Rightarrow> str ReportRow" where
  "make_out eval_entry orig_entry =
     \<lparr>trad_zh_question = trad_zh_question eval_entry,
      trad_zh_choices = encode_choices (trad_zh_choices eval_entry),
      en_question = en_question eval_entry,
      en_choices = encode_choices (en_choices eval_entry),
      differences = differences eval_entry,
      score = score eval_entry,
      answer = orig_answer orig_entry\<rparr>"

text \<open>
  The interpreter is a parameter. \<open>eval_repr s\<close> stands for \<^verbatim>\<open>repr(eval(s))\<close>: the text of the
  value of the expression \<open>s\<close>, or the exception its evaluation raises (the expression is
  taken to have no effect on the notebook's variables). \<open>repr_str\<close> is \<^verbatim>\<open>repr\<close> of a text.
\<close>

record interpreter =
  eval_repr :: "str \<Rightarrow> exn + str"
  repr_str :: "str \<Rightarrow> str"

text \<open>What the run leaves behind: the lines printed and the texts written to the file.\<close>

record world =
  stdout :: "str list"
  fout :: "str list"

definition print :: "str \<Rightarrow> world \<Rightarrow> world" where
  "print line w = w\<lparr>stdout := stdout w @ [line]\<rparr>"

definition fout_write :: "str \<Rightarrow> world \<Rightarrow> world" where
  "fout_write s w = w\<lparr>fout := fout w @ [s]\<rparr>"

definition question_diagnostic :: "str \<Rightarrow> str \<Rightarrow> str list" where
  "question_diagnostic new old =
     [ascii ''Different question:'', ascii ''New: '' @ new, ascii ''Old: '' @ old, []]"

definition choices_diagnostic :: "interpreter \<Rightarrow> str \<Rightarrow> str \<Rightarrow> str list" where
  "choices_diagnostic py new old =
     [ascii ''Different choices:'', ascii ''New: '' @ repr_str py new,
      ascii ''Old: '' @ repr_str py old, []]"

text \<open>
  One turn of the loop. The result is the world the turn leaves and the exception that
  ended it, if any: what was printed before an exception stays printed.
\<close>

definition loop_body ::
  "interpreter \<Rightarrow> choices TestQuestion \<Rightarrow> Entry \<Rightarrow> world \<Rightarrow> world \<times> exn option" where
  "loop_body py eval_entry orig_entry w =
     (let out = make_out eval_entry orig_entry;
          w1 = (if en_question eval_entry \<noteq> orig_en_question orig_entry
                then foldl (\<lambda>w l. print l w) w
                       (question_diagnostic (en_question eval_entry) (orig_en_question orig_entry))
                else w)
      in case eval_repr py (en_choices out) of
           Inl e \<Rightarrow> (w1, Some e)
         | Inr new \<Rightarrow>
             (case eval_repr py (orig_en_choices orig_entry) of
                Inl e \<Rightarrow> (w1, Some e)
              | Inr old \<Rightarrow>
                  (let w2 = (if new \<noteq> old
                             then foldl (\<lambda>w l. print l w) w1
                                    (choices_diagnostic py (en_choices out)
                                       (orig_en_choices orig_entry))
                             else w1)
                   in case DictWriter_writerow out of
                        Inl e \<Rightarrow> (w2, Some e)
                      | Inr line \<Rightarrow> (fout_write line w2, None))))"

fun loop :: "interpreter \<Rightarrow> (choices TestQuestion \<times> Entry) list \<Rightarrow> world \<Rightarrow> world \<times> exn option" where
  "loop py [] w = (w, None)"
| "loop py ((eval_entry, orig_entry) # rest) w =
     (case loop_body py eval_entry orig_entry w of
        (w', Some e) \<Rightarrow> (w', Some e)
      | (w', None) \<Rightarrow> loop py rest w')"

definition report_writer ::
  "interpreter \<Rightarrow> choices TestQuestion list \<Rightarrow> Entry list \<Rightarrow> world \<times> exn option" where
  "report_writer py translation_evaluations all_entries =
     (case DictWriter_writeheader of
        Inl e \<Rightarrow> (\<lparr>stdout = [], fout = []\<rparr>, Some e)
      | Inr header \<Rightarrow>
          loop py (zip translation_evaluations all_entries) \<lparr>stdout = [], fout = [header]\<rparr>)"

subsection \<open>A fragment of the interpreter\<close>

text \<open>
  For concrete runs: what Python's \<^verbatim>\<open>eval\<close> and \<^verbatim>\<open>repr\<close> do on list displays of string literals,
  the expressions \<^verbatim>\<open>json.dumps\<close> writes for a list of strings. \<open>literal_eval\<close> reads
  \<^verbatim>\<open>[\<close>, then string literals in single or double quotes separated by commas, with spaces
  between the tokens and an optional trailing comma, then \<^verbatim>\<open>]\<close>; inside a literal it knows
  the escapes \<^verbatim>\<open>\\\<close>, \<^verbatim>\<open>\'\<close>, \<^verbatim>\<open>\"\<close>, \<^verbatim>\<open>\b\<close>, \<^verbatim>\<open>\f\<close>, \<^verbatim>\<open>\n\<close>, \<^verbatim>\<open>\r\<close>, \<^verbatim>\<open>\t\<close>, \<^verbatim>\<open>\xXX\<close>, \<^verbatim>\<open>\uXXXX\<close> and
  \<^verbatim>\<open>\UXXXXXXXX\<close>. A text with a lone surrogate cannot be encoded for the compiler
  (\<open>UnicodeEncodeError\<close>); an unclosed literal or bracket, a line break inside a literal, a
  short hexadecimal escape and a \<^verbatim>\<open>\U\<close> escape beyond 0x10FFFF are syntax errors. Every other text is outside the fragment and answered by \<open>NotModelled\<close>.
  \<^verbatim>\<open>repr\<close> of a text needs the Unicode table of printable characters, the parameter
  \<open>isprintable\<close> (asked only for code points from 128 on).
\<close>

definition hex_escape :: "nat \<Rightarrow> str \<Rightarrow> nat option" where
  "hex_escape w s = (if length s < w then None else hex_number 0 (take w s))"

fun string_literal :: "nat \<Rightarrow> str \<Rightarrow> str \<Rightarrow> exn + (str \<times> str)" where
  "string_literal q [] acc = Inl SyntaxError"
| "string_literal q (c # s) acc =
     (if c = q then Inr (acc, s)
      else if c = 10 \<or> c = 13 then Inl SyntaxError
      else if c \<noteq> 92 then string_literal q s (acc @ [c])
      else (case s of
              [] \<Rightarrow> Inl SyntaxError
            | esc # s' \<Rightarrow>
                if esc = 92 \<or> esc = 39 \<or> esc = 34 then string_literal q s' (acc @ [esc])
                else if esc = 98 then string_literal q s' (acc @ [8])
                else if esc = 102 then string_literal q s' (acc @ [12])
                else if esc = 110 then string_literal q s' (acc @ [10])
                else if esc = 114 then string_literal q s' (acc @ [13])
                else if esc = 116 then string_literal q s' (acc @ [9])
                else if esc = 120 then
                  (case hex_escape 2 s' of
                     None \<Rightarrow> Inl SyntaxError
                   | Some v \<Rightarrow> string_literal q (drop 2 s') (acc @ [v]))
                else if esc = 117 then
                  (case hex_escape 4 s' of
                     None \<Rightarrow> Inl SyntaxError
                   | Some v \<Rightarrow> string_literal q (drop 4 s') (acc @ [v]))
                else if esc = 85 then
                  (case hex_escape 8 s' of
                     None \<Rightarrow> Inl SyntaxError
                   | Some v \<Rightarrow>
                       if 1114111 < v then Inl SyntaxError
                       else string_literal q (drop 8 s') (acc @ [v]))
                else Inl NotModelled))"

fun skip_spaces :: "str \<Rightarrow> str" where
  "skip_spaces [] = []"
| "skip_spaces (c # s) = (if c = 32 then skip_spaces s else c # s)"

lemma length_skip_spaces: "length (skip_spaces s) \<le> length s"
  by (induction s) auto

lemma string_literal_shorter:
  "string_literal q s acc = Inr (v, rest) \<Longrightarrow> length rest < length s"
proof (induction "length s" arbitrary: s acc rule: less_induct)
  case less
  show ?case
  proof (cases s)
    case Nil
    with less.prems show ?thesis by simp
  next
    case (Cons c s1)
    have IH: "\<And>t a. string_literal q t a = Inr (v, rest) \<Longrightarrow> length t \<le> length s1
                \<Longrightarrow> length rest < length t"
    proof -
      fix t a assume "string_literal q t a = Inr (v, rest)" "length t \<le> length s1"
      then show "length rest < length t" using less.hyps[of t a] Cons by simp
    qed
    from less.prems show ?thesis unfolding Cons
      by (auto split: if_splits list.splits option.splits dest!: IH)
  qed
qed

function list_display :: "str \<Rightarrow> str list \<Rightarrow> exn + str list" where
  "list_display s items =
     (case skip_spaces s of
        [] \<Rightarrow> Inl SyntaxError
      | c # s' \<Rightarrow>
          if c = 93 then (if s' = [] then Inr items else Inl NotModelled)
          else if c = 34 \<or> c = 39 then
            (case string_literal c s' [] of
               Inl e \<Rightarrow> Inl e
             | Inr (v, rest) \<Rightarrow>
                 (case skip_spaces rest of
                    [] \<Rightarrow> Inl SyntaxError
                  | d # rest' \<Rightarrow>
                      if d = 44 then list_display rest' (items @ [v])
                      else if d = 93 then (if rest' = [] then Inr (items @ [v]) else Inl NotModelled)
                      else Inl NotModelled))
          else Inl NotModelled)"
  by pat_completeness auto
termination
proof (relation "measure (\<lambda>(s, items). length s)")
  show "wf (measure (\<lambda>(s, items). length s))" by simp
next
  fix s :: str and items :: "str list" and c s' x2 v rest d rest'
  assume a: "skip_spaces s = c # s'" "string_literal c s' [] = Inr x2" "(v, rest) = x2"
    "skip_spaces rest = d # rest'"
  from a(2,3) have "length rest < length s'" using string_literal_shorter[of c s' "[]" v rest] by simp
  moreover from a(1) have "length s' < length s" using length_skip_spaces[of s] by simp
  moreover from a(4) have "length rest' < length rest" using length_skip_spaces[of rest] by simp
  ultimately show "((rest', items @ [v]), (s, items)) \<in> measure (\<lambda>(s, items). length s)"
    by simp
qed

declare list_display.simps [simp del]

definition is_surrogate :: "nat \<Rightarrow> bool" where
  "is_surrogate c \<longleftrightarrow> 55296 \<le> c \<and> c \<le> 57343"

definition literal_eval :: "str \<Rightarrow> exn + str list" where
  "literal_eval s =
     (if list_ex is_surrogate s then Inl UnicodeEncodeError
      else if 0 \<in> set s then Inl NotModelled
      else (case s of
              [] \<Rightarrow> Inl SyntaxError
            | c # s' \<Rightarrow> if c = 91 then list_display s' [] else Inl NotModelled))"

definition repr_quote :: "str \<Rightarrow> nat" where
  "repr_quote s = (if 39 \<in> set s \<and> 34 \<notin> set s then 34 else 39)"

definition repr_char :: "(nat \<Rightarrow> bool) \<Rightarrow> nat \<Rightarrow> nat \<Rightarrow> str" where
  "repr_char isprintable q c =
     (if c = q \<or> c = 92 then [92, c]
      else if c = 9 then [92, 116]
      else if c = 10 then [92, 110]
      else if c = 13 then [92, 114]
      else if c < 32 \<or> c = 127 then [92, 120] @ hex 2 c
      else if c < 127 then [c]
      else if isprintable c then [c]
      else if c \<le> 255 then [92, 120] @ hex 2 c
      else if c \<le> 65535 then [92, 117] @ hex 4 c
      else [92, 85] @ hex 8 c)"

definition py_repr :: "(nat \<Rightarrow> bool) \<Rightarrow> str \<Rightarrow> str" where
  "py_repr isprintable s =
     (let q = repr_quote s in q # concat (map (repr_char isprintable q) s) @ [q])"

definition repr_list :: "(nat \<Rightarrow> bool) \<Rightarrow> str list \<Rightarrow> str" where
  "repr_list isprintable lst = 91 # str_join (ascii '', '') (map (py_repr isprintable) lst) @ [93]"

definition python :: "(nat \<Rightarrow> bool) \<Rightarrow> interpreter" where
  "python isprintable =
     \<lparr>eval_repr = (\<lambda>s. case literal_eval s of
                          Inl e \<Rightarrow> Inl e
                        | Inr v \<Rightarrow> Inr (repr_list isprintable v)),
      repr_str = py_repr isprintable\<rparr>"

text \<open>
  A Python \<^verbatim>\<open>str\<close> holds code points below 0x110000, while \<open>str\<close> here is any list of
  naturals: \<open>code_points\<close> says that the texts of a list are Python texts, and
  \<open>no_surrogates\<close> that none of them holds a lone surrogate, so that the compiler accepts
  an expression that quotes them.
\<close>

definition code_points :: "str list \<Rightarrow> bool" where
  "code_points lst \<longleftrightarrow> (\<forall>s \<in> set lst. \<forall>c \<in> set s. c < 1114112)"

definition no_surrogates :: "str list \<Rightarrow> bool" where
  "no_surrogates lst \<longleftrightarrow> (\<forall>s \<in> set lst. \<not> list_ex is_surrogate s)"

subsection \<open>The reader, character by character\<close>

text \<open>
  For the proofs: the same reader, fed the characters of the whole text one at a time.
  \<open>feed\<close> runs \<open>parse_process_char\<close> over some characters; \<open>end_of_line\<close> is what the reader
  does when a line ends (the end-of-line mark, then either the record goes on or it is
  complete and a new one starts); \<open>char_rows\<close> reads a text, ending a line after LF, CR LF
  or a lone CR, and is shown below to agree with \<open>read_rows\<close> on the lines of \<open>readlines\<close>.
  The flag says whether the current line already holds a character.
\<close>

fun feed :: "Reader \<Rightarrow> str \<Rightarrow> exn + Reader" where
  "feed rd [] = Inr rd"
| "feed rd (c # s) = (case parse_process_char rd c of Inl e \<Rightarrow> Inl e | Inr rd' \<Rightarrow> feed rd' s)"

definition end_of_line :: "Reader \<Rightarrow> (Reader \<Rightarrow> exn + str list list) \<Rightarrow> exn + str list list" where
  "end_of_line rd continue =
     (case parse_process_char rd 0 of
        Inl e \<Rightarrow> Inl e
      | Inr rd' \<Rightarrow>
          if state rd' \<noteq> START_RECORD then continue rd'
          else (case continue parse_reset of
                  Inl e \<Rightarrow> Inl e
                | Inr rows \<Rightarrow> Inr (row rd' # rows)))"

fun char_rows :: "str \<Rightarrow> bool \<Rightarrow> Reader \<Rightarrow> exn + str list list" where
  "char_rows [] pending rd =
     (if pending then end_of_line rd (\<lambda>rd'. read_rows rd' []) else read_rows rd [])"
| "char_rows (c # s) pending rd =
     (if c = 0 then Inl csv_Error
      else if c = 10 then
        (case parse_process_char rd c of
           Inl e \<Rightarrow> Inl e
         | Inr rd' \<Rightarrow> end_of_line rd' (char_rows s False))
      else if c = 13 then
        (case s of
           [] \<Rightarrow> (case parse_process_char rd c of
                    Inl e \<Rightarrow> Inl e
                  | Inr rd' \<Rightarrow> end_of_line rd' (char_rows [] False))
         | d # s' \<Rightarrow>
             if d = 10 then
               (case feed rd [c, d] of
                  Inl e \<Rightarrow> Inl e
                | Inr rd' \<Rightarrow> end_of_line rd' (char_rows s' False))
             else
               (case parse_process_char rd c of
                  Inl e \<Rightarrow> Inl e
                | Inr rd' \<Rightarrow> end_of_line rd' (char_rows s False)))
      else
        (case parse_process_char rd c of
           Inl e \<Rightarrow> Inl e
         | Inr rd' \<Rightarrow> char_rows s True rd'))"

text \<open>What the writer puts for a quote character, and for a character of a JSON string.\<close>

abbreviation doubled :: "str \<Rightarrow> str" where
  "doubled f \<equiv> concat (map (\<lambda>c. if c = 34 then [34, 34] else [c]) f)"

abbreviation escaped :: "str \<Rightarrow> str" where
  "escaped s \<equiv> concat (map (\<lambda>c. if ESCAPE c then ESCAPE_DCT c else [c]) s)"

text \<open>The reader after one written field, before the character that follows it.\<close>

definition after_field :: "ParserState \<Rightarrow> str list \<Rightarrow> str \<Rightarrow> Reader" where
  "after_field st ro f =
     (if list_ex needs_quoting f then \<lparr>state = QUOTE_IN_QUOTED_FIELD, row = ro, field = f\<rparr>
      else if f = [] then \<lparr>state = st, row = ro, field = []\<rparr>
      else \<lparr>state = IN_FIELD, row = ro, field = f\<rparr>)"

text \<open>The seven cells of the row written for one pair, in the order of the header.\<close>

definition report_row :: "choices TestQuestion \<times> Entry \<Rightarrow> str list" where
  "report_row p =
     (case p of (e, orig) \<Rightarrow>
        [en_question e, encode_choices (en_choices e), trad_zh_question e,
         encode_choices (trad_zh_choices e), str_int (orig_answer orig), str_int (score e),
         differences e])"

subsection \<open>Sample data\<close>

text \<open>
  Concrete records for the runs that the witnesses and counterexamples compute: the spec's
  question about the boiling point of water, a stand-in for each chain that answers as a
  model would, and the evaluation record they lead to.
\<close>

definition water :: SourceRecord where
  "water = \<lparr>question = ascii ''What is the boiling point of water?'',
     choices_of = [ascii ''100'' @ [176, 67], ascii ''0'' @ [176, 67], ascii ''50'' @ [176, 67],
                   ascii ''212'' @ [176, 67]],
     answer_of = 0\<rparr>"

definition zh_water :: str where
  "zh_water = [27700, 30340, 27832, 40670, 26159, 22810, 23569, 65311]"

definition sample_translation_chain :: "Entry \<Rightarrow> exn + choices Translation" where
  "sample_translation_chain entry =
     (case json_loads (orig_en_choices entry) of
        Inl e \<Rightarrow> Inl e
      | Inr lst \<Rightarrow>
          Inr \<lparr>trad_zh_question = zh_water, trad_zh_choices = ChoiceList lst,
               en_question = orig_en_question entry, en_choices = ChoiceList lst\<rparr>)"

definition sample_eval_chain :: "choices Translation \<Rightarrow> exn + choices TestQuestion" where
  "sample_eval_chain t =
     Inr \<lparr>trad_zh_question = trad_zh_question t, trad_zh_choices = trad_zh_choices t,
          en_question = en_question t, en_choices = en_choices t,
          differences = [], score = 10\<rparr>"

definition water_evaluation :: "choices TestQuestion" where
  "water_evaluation =
     \<lparr>trad_zh_question = zh_water, trad_zh_choices = ChoiceList (choices_of water),
      en_question = question water, en_choices = ChoiceList (choices_of water),
      differences = [], score = 10\<rparr>"

definition unparsable_evaluation :: "choices TestQuestion" where
  "unparsable_evaluation = water_evaluation\<lparr>en_choices := ChoiceText (ascii ''['')\<rparr>"

definition scored :: "int \<Rightarrow> choices TestQuestion" where
  "scored s = \<lparr>trad_zh_question = [], trad_zh_choices = ChoiceList [], en_question = [],
     en_choices = ChoiceList [], differences = [], score = s\<rparr>"

definition tricky_evaluation :: "choices TestQuestion" where
  "tricky_evaluation =
     \<lparr>trad_zh_question = zh_water,
      trad_zh_choices = ChoiceText (json_dumps (choices_of water)),
      en_question = ascii ''What, then, is the boiling point of water?'',
      en_choices = ChoiceList [ascii ''100'' @ [176, 67], [34, 48, 34] @ [176, 67]],
      differences = ascii ''The question adds '' @ [34] @ ascii ''then'' @ [34, 44, 13, 10]
                      @ ascii ''and two choices are missing'',
      score = 11\<rparr>"

definition quoted_evaluation :: "choices TestQuestion" where
  "quoted_evaluation = water_evaluation\<lparr>en_choices := ChoiceText [91, 39, 97, 39, 93]\<rparr>"

definition one_choice :: Entry where
  "one_choice = \<lparr>orig_en_question = question water, orig_en_choices = json_dumps [[97]],
     orig_answer = 0\<rparr>"

definition bracket_evaluation :: "choices TestQuestion" where
  "bracket_evaluation = tricky_evaluation\<lparr>en_choices := ChoiceText (ascii ''['')\<rparr>"

section \<open>Properties\<close>

subsection \<open>Unfolding the definitions on concrete data\<close>

lemmas sample_eval = water_def zh_water_def sample_translation_chain_def sample_eval_chain_def
  water_evaluation_def load_entries_def load_entry_def

lemmas json_eval = json_dumps_def py_encode_basestring_def ESCAPE_def ESCAPE_DCT_def hex_digit_def
  json_loads_def WHITESPACE_def JSONArray_def array_items.simps scan_once_str_def
  starts_other_value_def decode_uXXXX_def hex_value_def BACKSLASH_def

lemmas csv_eval = csv_writerow_def join_append_def needs_quoting_def csv_reader_def
  parse_reset_def parse_save_field_def parse_add_char_def start_field_def parse_process_char_def

lemmas python_eval = python_def literal_eval_def list_display.simps is_surrogate_def
  repr_list_def py_repr_def repr_quote_def repr_char_def hex_escape_def

lemmas report_eval = report_writer_def loop_body_def make_out_def DictWriter_writerow_def
  DictWriter_writeheader_def row_fields_def dict_to_list_def getitem_def fieldnames_def
  print_def fout_write_def question_diagnostic_def choices_diagnostic_def str_int_def str_nat.simps


subsection \<open>Batch stages\<close>

lemma batch_length: "batch f xs = Inr ys \<Longrightarrow> length ys = length xs"
  by (induction xs arbitrary: ys) (auto split: sum.splits)

lemma batch_nth: "batch f xs = Inr ys \<Longrightarrow> i < length xs \<Longrightarrow> f (xs ! i) = Inr (ys ! i)"
proof (induction xs arbitrary: ys i)
  case Nil
  then show ?case by simp
next
  case (Cons x xs)
  then show ?case by (cases i) (auto split: sum.splits)
qed

lemma batch_total: "(\<forall>x \<in> set xs. \<exists>y. f x = Inr y) \<Longrightarrow> \<exists>ys. batch f xs = Inr ys"
  by (induction xs) (auto split: sum.splits)

lemma batch_fail: "batch f xs = Inl e \<Longrightarrow> \<exists>x \<in> set xs. f x = Inl e"
  by (induction xs) (auto split: sum.splits)

text \<open>
  C1. When the translation stage returns for \<open>N\<close> entries it returns exactly \<open>N\<close>
  translations, and the evaluation stage then returns exactly \<open>N\<close> evaluations; the record
  at position \<open>i\<close> of each output is the chain's answer for the record at position \<open>i\<close> of
  its input, so evaluation \<open>i\<close> belongs to source entry \<open>i\<close>. A stage returns whenever each
  of its invocations does; otherwise the exception of a failed invocation propagates.
\<close>

theorem stages_preserve_order_and_length:
  "(translation_stage translation_chain all_entries = Inr trad_zh_translations \<longrightarrow>
    evaluation_stage eval_chain trad_zh_translations = Inr translation_evaluations \<longrightarrow>
      length trad_zh_translations = length all_entries \<and>
      length translation_evaluations = length all_entries \<and>
      (\<forall>i < length all_entries.
         translation_chain (all_entries ! i) = Inr (trad_zh_translations ! i) \<and>
         eval_chain (trad_zh_translations ! i) = Inr (translation_evaluations ! i))) \<and>
   ((\<forall>x \<in> set all_entries. \<exists>y. translation_chain x = Inr y) \<longrightarrow>
      (\<exists>ys. translation_stage translation_chain all_entries = Inr ys)) \<and>
   ((\<forall>x \<in> set trad_zh_translations. \<exists>y. eval_chain x = Inr y) \<longrightarrow>
      (\<exists>ys. evaluation_stage eval_chain trad_zh_translations = Inr ys))"
proof (intro conjI impI)
  assume t: "translation_stage translation_chain all_entries = Inr trad_zh_translations"
    and e: "evaluation_stage eval_chain trad_zh_translations = Inr translation_evaluations"
  from t show lt: "length trad_zh_translations = length all_entries"
    by (simp add: translation_stage_def batch_length)
  from e lt show "length translation_evaluations = length all_entries"
    by (simp add: evaluation_stage_def batch_length)
  show "\<forall>i < length all_entries.
         translation_chain (all_entries ! i) = Inr (trad_zh_translations ! i) \<and>
         eval_chain (trad_zh_translations ! i) = Inr (translation_evaluations ! i)"
  proof (intro allI impI conjI)
    fix i assume i: "i < length all_entries"
    from t i show "translation_chain (all_entries ! i) = Inr (trad_zh_translations ! i)"
      by (simp add: translation_stage_def batch_nth)
    from e i lt show "eval_chain (trad_zh_translations ! i) = Inr (translation_evaluations ! i)"
      by (simp add: evaluation_stage_def batch_nth)
  qed
next
  assume "\<forall>x \<in> set all_entries. \<exists>y. translation_chain x = Inr y"
  then show "\<exists>ys. translation_stage translation_chain all_entries = Inr ys"
    unfolding translation_stage_def by (rule batch_total)
next
  assume "\<forall>x \<in> set trad_zh_translations. \<exists>y. eval_chain x = Inr y"
  then show "\<exists>ys. evaluation_stage eval_chain trad_zh_translations = Inr ys"
    unfolding evaluation_stage_def by (rule batch_total)
qed

lemma sample_translation: "translation_stage sample_translation_chain (load_entries [water, water]) =
  Inr [\<lparr>trad_zh_question = zh_water, trad_zh_choices = ChoiceList (choices_of water),
               en_question = question water, en_choices = ChoiceList (choices_of water)\<rparr>,
       \<lparr>trad_zh_question = zh_water, trad_zh_choices = ChoiceList (choices_of water),
               en_question = question water, en_choices = ChoiceList (choices_of water)\<rparr>]"
  by (simp add: translation_stage_def sample_eval json_eval)

lemma sample_evaluation: "evaluation_stage sample_eval_chain 
      [\<lparr>trad_zh_question = zh_water, trad_zh_choices = ChoiceList (choices_of water),
               en_question = question water, en_choices = ChoiceList (choices_of water)\<rparr>,
       \<lparr>trad_zh_question = zh_water, trad_zh_choices = ChoiceList (choices_of water),
               en_question = question water, en_choices = ChoiceList (choices_of water)\<rparr>]
     = Inr [water_evaluation, water_evaluation]"
  by (simp add: evaluation_stage_def sample_eval_chain_def water_evaluation_def)

theorem stages_preserve_order_and_length_witness:
  "translation_stage sample_translation_chain (load_entries [water, water]) =
     Inr [\<lparr>trad_zh_question = zh_water, trad_zh_choices = ChoiceList (choices_of water),
               en_question = question water, en_choices = ChoiceList (choices_of water)\<rparr>,
       \<lparr>trad_zh_question = zh_water, trad_zh_choices = ChoiceList (choices_of water),
               en_question = question water, en_choices = ChoiceList (choices_of water)\<rparr>] \<and>
   evaluation_stage sample_eval_chain
      [\<lparr>trad_zh_question = zh_water, trad_zh_choices = ChoiceList (choices_of water),
               en_question = question water, en_choices = ChoiceList (choices_of water)\<rparr>,
       \<lparr>trad_zh_question = zh_water, trad_zh_choices = ChoiceList (choices_of water),
               en_question = question water, en_choices = ChoiceList (choices_of water)\<rparr>]
     = Inr [water_evaluation, water_evaluation] \<and>
   length [water_evaluation, water_evaluation] = length (load_entries [water, water]) \<and>
   sample_eval_chain
      \<lparr>trad_zh_question = zh_water, trad_zh_choices = ChoiceList (choices_of water),
        en_question = question water, en_choices = ChoiceList (choices_of water)\<rparr>
     = Inr ([water_evaluation, water_evaluation] ! 1)"
  using stages_preserve_order_and_length[of sample_translation_chain "load_entries [water, water]"
      "[\<lparr>trad_zh_question = zh_water, trad_zh_choices = ChoiceList (choices_of water),
               en_question = question water, en_choices = ChoiceList (choices_of water)\<rparr>,
       \<lparr>trad_zh_question = zh_water, trad_zh_choices = ChoiceList (choices_of water),
               en_question = question water, en_choices = ChoiceList (choices_of water)\<rparr>]"
      sample_eval_chain "[water_evaluation, water_evaluation]"]
    sample_translation sample_evaluation
  by (simp add: sample_eval json_eval)

subsection \<open>Progress tracker\<close>

lemma count_foldl_dispatch:
  "count (foldl dispatch cb evs) = count cb + count_list evs LLM_end"
proof (induction evs arbitrary: cb)
  case Nil
  then show ?case by simp
next
  case (Cons ev evs)
  then show ?case by (cases ev) (simp_all add: on_llm_end_def)
qed

lemma disable_foldl_dispatch:
  "disable (progress_bar (foldl dispatch cb evs)) = disable (progress_bar cb)"
proof (induction evs arbitrary: cb)
  case Nil
  then show ?case by simp
next
  case (Cons ev evs)
  then show ?case by (cases ev) (simp_all add: on_llm_end_def tqdm_update_def)
qed

lemma n_foldl_dispatch:
  "\<not> disable (progress_bar cb) \<Longrightarrow>
   n (progress_bar (foldl dispatch cb evs)) = n (progress_bar cb) + count_list evs LLM_end"
proof (induction evs arbitrary: cb)
  case Nil
  then show ?case by simp
next
  case (Cons ev evs)
  then show ?case by (cases ev) (simp_all add: on_llm_end_def tqdm_update_def)
qed

lemma count_list_mset: "mset xs = mset ys \<Longrightarrow> count_list xs a = count_list ys a"
  by (metis count_mset)

text \<open>
  C8, as the code has it. Entered with expected total \<open>t\<close>, the tracker's counter and the
  bar's position both equal the number of \<open>LLM_end\<close> events received, one step per model
  call that ended, in whatever order the events arrive (any rearrangement of the events
  gives the same count); leaving the scope closes the bar whether the body returned or
  raised, and the body's result or exception is passed on unchanged. A call that fails is
  an \<open>LLM_error\<close> event, which the class does not handle: it is not counted.
\<close>

theorem BatchCallback_counts_completed_calls:
  "count (foldl dispatch (BatchCallback_enter (BatchCallback_init t)) evs) = count_list evs LLM_end \<and>
   n (progress_bar (foldl dispatch (BatchCallback_enter (BatchCallback_init t)) evs))
     = count_list evs LLM_end \<and>
   (mset evs' = mset evs \<longrightarrow>
      count (foldl dispatch (BatchCallback_enter (BatchCallback_init t)) evs')
        = count (foldl dispatch (BatchCallback_enter (BatchCallback_init t)) evs)) \<and>
   disable (progress_bar (fst (with_BatchCallback t body))) \<and>
   snd (with_BatchCallback t body) = snd (body (BatchCallback_enter (BatchCallback_init t)))"
proof (intro conjI impI)
  let ?cb = "BatchCallback_enter (BatchCallback_init t)"
  have c0: "count ?cb = 0" and n0: "n (progress_bar ?cb) = 0" and d0: "\<not> disable (progress_bar ?cb)"
    by (simp_all add: BatchCallback_enter_def BatchCallback_init_def tqdm_init_def)
  show "count (foldl dispatch ?cb evs) = count_list evs LLM_end"
    by (simp add: count_foldl_dispatch c0)
  show "n (progress_bar (foldl dispatch ?cb evs)) = count_list evs LLM_end"
    by (simp add: n_foldl_dispatch[OF d0] n0)
  show "count (foldl dispatch ?cb evs') = count (foldl dispatch ?cb evs)" if "mset evs' = mset evs"
    using count_list_mset[OF that] by (simp add: count_foldl_dispatch)
  show "disable (progress_bar (fst (with_BatchCallback t body)))"
    by (simp add: with_BatchCallback_def BatchCallback_exit_def tqdm_close_def Let_def split: prod.splits)
  show "snd (with_BatchCallback t body) = snd (body ?cb)"
    by (simp add: with_BatchCallback_def Let_def split: prod.splits)
qed

theorem BatchCallback_counts_completed_calls_witness:
  "mset [LLM_end, LLM_error, LLM_end] = mset [LLM_error, LLM_end, LLM_end] \<and>
   count (foldl dispatch (BatchCallback_enter (BatchCallback_init 3)) [LLM_end, LLM_error, LLM_end])
     = count (foldl dispatch (BatchCallback_enter (BatchCallback_init 3)) [LLM_error, LLM_end, LLM_end]) \<and>
   count (foldl dispatch (BatchCallback_enter (BatchCallback_init 3)) [LLM_error, LLM_end, LLM_end]) = 2"
  using BatchCallback_counts_completed_calls[of 3 "[LLM_error, LLM_end, LLM_end]"
      "[LLM_end, LLM_error, LLM_end]" "\<lambda>cb. (cb, Inr ())"]
  by (simp add: numeral_2_eq_2)

text \<open>
  C8 as stated fails: a unit of work that fails does not advance the counter or the bar.
\<close>

theorem failed_call_does_not_advance_counterexample:
  "count (dispatch (BatchCallback_enter (BatchCallback_init 1)) LLM_error)
     \<noteq> count (BatchCallback_enter (BatchCallback_init 1)) + 1 \<and>
   n (progress_bar (dispatch (BatchCallback_enter (BatchCallback_init 1)) LLM_error))
     \<noteq> n (progress_bar (BatchCallback_enter (BatchCallback_init 1))) + 1"
  by (simp add: BatchCallback_enter_def BatchCallback_init_def tqdm_init_def)

subsection \<open>Summary plot\<close>

lemma filter_unit_bin:
  "length (filter (\<lambda>x. lo \<le> x \<and> x < lo + 1) xs) = count_list xs (lo::int)"
  by (induction xs) auto

lemma filter_last_bin:
  "length (filter (\<lambda>x. lo \<le> x \<and> x \<le> lo + 1) xs) = count_list xs (lo::int) + count_list xs (lo + 1)"
  by (induction xs) auto

lemma range_py_12: "range_py 12 = [0, 1, 2, 3, 4, 5, 6, 7, 8, 9, 10, 11]"
  by (simp add: range_py_def upt_rec)

lemma hist_counts_range_12:
  "hist_counts xs (range_py 12) =
     map (count_list xs) [0, 1, 2, 3, 4, 5, 6, 7, 8, 9] @ [count_list xs 10 + count_list xs 11]"
  using filter_unit_bin[of 0 xs] filter_unit_bin[of 1 xs] filter_unit_bin[of 2 xs]
    filter_unit_bin[of 3 xs] filter_unit_bin[of 4 xs] filter_unit_bin[of 5 xs]
    filter_unit_bin[of 6 xs] filter_unit_bin[of 7 xs] filter_unit_bin[of 8 xs]
    filter_unit_bin[of 9 xs] filter_last_bin[of 10 xs]
  by (simp add: range_py_12)


text \<open>
  C9. The plot collects the scores of all evaluation records and counts them over the bin
  edges 0, 1, ..., 11: eleven bins of width one, bin \<open>s\<close> holding the number of records of
  score \<open>s\<close> for \<open>s\<close> from 0 to 9, and the last bin, closed on both sides, the records of
  score 10 (and 11); the axes are labelled "Scores" and "Count". For the scores
  0, 5, 10, 10, 7 the counts are 1 at 0, 1 at 5, 1 at 7, 2 at 10 and 0 elsewhere.
\<close>

theorem summary_plot_histogram:
  "bin_edges (summary_plot evs) = [0, 1, 2, 3, 4, 5, 6, 7, 8, 9, 10, 11] \<and>
   length (bin_counts (summary_plot evs)) = 11 \<and>
   bin_counts (summary_plot evs) =
     map (count_list (map score evs)) [0, 1, 2, 3, 4, 5, 6, 7, 8, 9]
       @ [count_list (map score evs) 10 + count_list (map score evs) 11] \<and>
   xlabel (summary_plot evs) = ''Scores'' \<and>
   ylabel (summary_plot evs) = ''Count'' \<and>
   (map score evs = [0, 5, 10, 10, 7] \<longrightarrow>
      bin_counts (summary_plot evs) = [1, 0, 0, 0, 0, 1, 0, 1, 0, 0, 2])"
proof -
  have edges: "bin_edges (summary_plot evs) = range_py 12"
    and counts: "bin_counts (summary_plot evs) = hist_counts (map score evs) (range_py 12)"
    and labels: "xlabel (summary_plot evs) = ''Scores''" "ylabel (summary_plot evs) = ''Count''"
    by (simp_all add: summary_plot_def Let_def)
  have scenario: "hist_counts [0, 5, 10, 10, 7] (range_py 12) = [1, 0, 0, 0, 0, 1, 0, 1, 0, 0, 2]"
    by (simp add: range_py_12)
  show ?thesis
    unfolding edges counts labels hist_counts_range_12
    using scenario by (simp add: range_py_12 hist_counts_range_12)
qed

theorem summary_plot_histogram_witness:
  "map score (map scored [0, 5, 10, 10, 7]) = [0, 5, 10, 10, 7] \<and>
   bin_counts (summary_plot (map scored [0, 5, 10, 10, 7])) = [1, 0, 0, 0, 0, 1, 0, 1, 0, 0, 2]"
  using summary_plot_histogram[of "map scored [0, 5, 10, 10, 7]"]
  by (simp add: scored_def)

subsection \<open>Report writer\<close>

lemma str_nat_no_zero: "0 \<notin> set (str_nat k)"
  by (induction k rule: str_nat.induct) (subst str_nat.simps, auto)

lemma writeheader_ok:
  "DictWriter_writeheader =
     Inr (ascii ''en_question,en_choices,trad_zh_question,trad_zh_choices,answer,score,differences''
            @ [13, 10])"
  by (simp add: DictWriter_writeheader_def fieldnames_def csv_writerow_def join_append_def
      needs_quoting_def)

lemma row_fields_make_out:
  "row_fields (make_out e orig) =
     [en_question e, encode_choices (en_choices e), trad_zh_question e,
      encode_choices (trad_zh_choices e), str_int (orig_answer orig), str_int (score e),
      differences e]"
  by (simp add: row_fields_def dict_to_list_def fieldnames_def getitem_def make_out_def)

lemma loop_body_fout:
  "loop_body py e orig w = (w', r) \<Longrightarrow>
     (case r of
        Some x \<Rightarrow> fout w' = fout w
      | None \<Rightarrow> \<exists>line. DictWriter_writerow (make_out e orig) = Inr line \<and> fout w' = fout w @ [line])"
  by (auto simp: loop_body_def Let_def print_def fout_write_def question_diagnostic_def
      choices_diagnostic_def split: sum.splits if_splits option.splits)



lemma loop_append:
  "loop py ps w = (w1, None) \<Longrightarrow> loop py (ps @ qs) w = loop py qs w1"
proof (induction ps arbitrary: w)
  case Nil
  then show ?case by simp
next
  case (Cons p ps)
  obtain e orig where p: "p = (e, orig)" by (cases p)
  obtain w2 r2 where b: "loop_body py e orig w = (w2, r2)" by (cases "loop_body py e orig w")
  with Cons p show ?case by (cases r2) auto
qed




subsection \<open>Reading back what the CSV writer wrote\<close>

lemma parse_process_char_error: "parse_process_char rd c = Inl e \<Longrightarrow> e = csv_Error"
  by (auto simp: parse_process_char_def start_field_def split: ParserState.splits if_splits)

lemma feed_error: "feed rd s = Inl e \<Longrightarrow> e = csv_Error"
  by (induction s arbitrary: rd) (auto split: sum.splits dest: parse_process_char_error)

lemma feed_append:
  "feed rd (a @ b) = (case feed rd a of Inl e \<Rightarrow> Inl e | Inr rd' \<Rightarrow> feed rd' b)"
  by (induction a arbitrary: rd) (auto split: sum.splits)

lemma process_line_feed:
  "0 \<notin> set line \<Longrightarrow>
     process_line rd line =
       (case feed rd line of Inl e \<Rightarrow> Inl e | Inr rd' \<Rightarrow> parse_process_char rd' 0)"
  by (induction line arbitrary: rd) (auto split: sum.splits)

lemma process_line_fails:
  "0 \<in> set a \<or> (\<exists>e. feed rd a = Inl e) \<Longrightarrow> process_line rd (a @ b) = Inl csv_Error"
proof (induction a arbitrary: rd)
  case Nil
  then show ?case by simp
next
  case (Cons c a)
  show ?case
  proof (cases "c = 0")
    case True
    then show ?thesis by simp
  next
    case False
    show ?thesis
    proof (cases "parse_process_char rd c")
      case (Inl e)
      then show ?thesis using False by (simp add: parse_process_char_error)
    next
      case (Inr rd')
      with Cons.prems False have "0 \<in> set a \<or> (\<exists>e. feed rd' a = Inl e)" by auto
      from Cons.IH[OF this] Inr False show ?thesis by simp
    qed
  qed
qed

lemma read_rows_bad_line:
  "0 \<in> set cur \<or> (\<exists>e. feed rd cur = Inl e) \<Longrightarrow>
     read_rows rd (readlines s cur) = Inl csv_Error"
proof (induction s cur rule: readlines.induct)
  case (1 line)
  then have "line \<noteq> []" by auto
  with 1 process_line_fails[of line rd "[]"] show ?case by simp
next
  case (2 c s line)
  show ?case
  proof (cases "c = 10")
    case True
    with 2(5) process_line_fails[of line rd "[c]"] show ?thesis by simp
  next
    case c10: False
    show ?thesis
    proof (cases "c = 13")
      case True
      with 2(5) process_line_fails[of line rd "[c]"] process_line_fails[of line rd "[c, 10]"]
      show ?thesis by (cases s) (auto)
    next
      case False
      have "0 \<in> set (line @ [c]) \<or> (\<exists>e. feed rd (line @ [c]) = Inl e)"
        using 2(5) by (auto simp: feed_append)
      from 2(4)[OF c10 False this] c10 False show ?thesis by simp
    qed
  qed
qed

lemma readlines_CR_other:
  "d \<noteq> 10 \<Longrightarrow> readlines (13 # d # t) cur = (cur @ [13]) # readlines (d # t) []"
  by simp

lemma char_rows_CR_other:
  "d \<noteq> 10 \<Longrightarrow> char_rows (13 # d # t) p rd =
     (case parse_process_char rd 13 of Inl e \<Rightarrow> Inl e
      | Inr rd' \<Rightarrow> end_of_line rd' (char_rows (d # t) False))"
  by simp

lemma read_rows_line:
  "0 \<notin> set line \<Longrightarrow>
   read_rows rd0 (line # lines) =
     (case feed rd0 line of
        Inl e \<Rightarrow> Inl e
      | Inr rd \<Rightarrow> end_of_line rd (\<lambda>r. read_rows r lines))"
  by (simp add: process_line_feed end_of_line_def split: sum.splits)

lemma char_rows_Nil_False: "char_rows [] False = (\<lambda>r. read_rows r [])"
  by (rule ext) simp

lemma read_rows_readlines:
  "0 \<notin> set cur \<Longrightarrow> feed rd0 cur = Inr rd \<Longrightarrow>
     read_rows rd0 (readlines s cur) = char_rows s (cur \<noteq> []) rd"
proof (induction s arbitrary: cur rd0 rd rule: length_induct)
  case (1 s)
  note IH = 1(1) and nz = 1(2) and fd = 1(3)
  have fresh: "(\<lambda>r. read_rows r (readlines t [])) = char_rows t False" if "length t < length s" for t
    using IH that by auto
  show ?case
  proof (cases s)
    case Nil
    show ?thesis
    proof (cases "cur = []")
      case True
      with Nil fd show ?thesis by simp
    next
      case False
      with Nil nz fd show ?thesis
        by (simp add: read_rows_line del: read_rows.simps)
    qed
  next
    case (Cons c s')
    show ?thesis
    proof (cases "c = 0")
      case True
      have "read_rows rd0 (readlines s' (cur @ [c])) = Inl csv_Error"
        using True by (intro read_rows_bad_line) simp
      with True Cons show ?thesis by simp
    next
      case c0: False
      show ?thesis
      proof (cases "c = 10")
        case True
        with nz have "0 \<notin> set (cur @ [c])" by simp
        from read_rows_line[OF this, of rd0 "readlines s' []"] fd True Cons fresh[of s']
        show ?thesis
          by (simp add: feed_append split: sum.splits del: read_rows.simps)
      next
        case c10: False
        show ?thesis
        proof (cases "c = 13")
          case True
          note c13 = this
          with nz have nz1: "0 \<notin> set (cur @ [13])" and nz2: "0 \<notin> set (cur @ [13, 10])" by simp_all
          show ?thesis
          proof (cases s')
            case Nil
            with read_rows_line[OF nz1, of rd0 "[]"] fd c13 Cons
            show ?thesis
              by (simp add: feed_append char_rows_Nil_False split: sum.splits
                  del: read_rows.simps char_rows.simps(1))
          next
            case (Cons d s'')
            note s' = this
            show ?thesis
            proof (cases "d = 10")
              case True
              have "length s'' < length s" using s' \<open>s = c # s'\<close> by simp
              from read_rows_line[OF nz2, of rd0 "readlines s'' []"] fd fresh[OF this]
              show ?thesis unfolding \<open>s = c # s'\<close> s' c13 True
                by (simp add: feed_append split: sum.splits del: read_rows.simps)
            next
              case False
              have "length (d # s'') < length s" using s' \<open>s = c # s'\<close> by simp
              from read_rows_line[OF nz1, of rd0 "readlines (d # s'') []"] fd fresh[OF this]
              show ?thesis
                unfolding \<open>s = c # s'\<close> s' c13 readlines_CR_other[OF False]
                  char_rows_CR_other[OF False]
                by (simp add: feed_append split: sum.splits
                    del: read_rows.simps readlines.simps char_rows.simps)
            qed
          qed
        next
          case False
          show ?thesis
          proof (cases "parse_process_char rd c")
            case (Inl e)
            then have "\<exists>e. feed rd0 (cur @ [c]) = Inl e" using fd by (simp add: feed_append)
            then have "read_rows rd0 (readlines s' (cur @ [c])) = Inl csv_Error"
              by (intro read_rows_bad_line) simp
            with Inl c0 c10 False Cons parse_process_char_error[OF Inl] show ?thesis by simp
          next
            case (Inr rd')
            then have f': "feed rd0 (cur @ [c]) = Inr rd'" using fd by (simp add: feed_append)
            have nz': "0 \<notin> set (cur @ [c])" using nz c0 by simp
            have "read_rows rd0 (readlines s' (cur @ [c])) = char_rows s' (cur @ [c] \<noteq> []) rd'"
              using IH Cons nz' f' by auto
            with Inr c0 c10 False Cons show ?thesis by simp
          qed
        qed
      qed
    qed
  qed
qed

lemma csv_reader_char_rows: "csv_reader text = char_rows text False parse_reset"
  using read_rows_readlines[of "[]" parse_reset parse_reset "text"]
  by (simp add: csv_reader_def)

lemma char_rows_pending: "s \<noteq> [] \<Longrightarrow> char_rows s p rd = char_rows s q rd"
  by (cases s) simp_all

lemma quoted_CR:
  "char_rows (13 # s) p \<lparr>state = IN_QUOTED_FIELD, row = ro, field = fa\<rparr> =
   char_rows s False \<lparr>state = IN_QUOTED_FIELD, row = ro, field = fa @ [13]\<rparr>"
proof (cases s)
  case Nil
  then show ?thesis
    by (simp add: parse_process_char_def parse_add_char_def end_of_line_def)
next
  case (Cons d s')
  then show ?thesis
    by (simp add: parse_process_char_def parse_add_char_def end_of_line_def)
qed

lemma quoted_content:
  "0 \<notin> set f \<Longrightarrow> t \<noteq> [] \<Longrightarrow>
   char_rows (doubled f @ t) p \<lparr>state = IN_QUOTED_FIELD, row = ro, field = fa\<rparr> =
   char_rows t True \<lparr>state = IN_QUOTED_FIELD, row = ro, field = fa @ f\<rparr>"
proof (induction f arbitrary: fa p)
  case Nil
  then show ?case by (simp add: char_rows_pending[of _ p _ True])
next
  case (Cons c f)
  then have c0: "c \<noteq> 0" and f0: "0 \<notin> set f" by auto
  note IH = Cons.IH[OF f0 Cons.prems(2)]
  show ?case
  proof (cases "c = 13")
    case True
    from IH[of False "fa @ [13]"] True show ?thesis
      by (simp add: quoted_CR del: char_rows.simps)
  next
    case False
    with c0 IH[of True "fa @ [c]"] IH[of False "fa @ [c]"]
    show ?thesis
      by (auto simp: parse_process_char_def parse_add_char_def end_of_line_def)
  qed
qed

lemma unquoted_content:
  "\<forall>c \<in> set g. c \<noteq> 0 \<and> \<not> needs_quoting c \<Longrightarrow> t \<noteq> [] \<Longrightarrow>
   char_rows (g @ t) p \<lparr>state = IN_FIELD, row = ro, field = fa\<rparr> =
   char_rows t True \<lparr>state = IN_FIELD, row = ro, field = fa @ g\<rparr>"
proof (induction g arbitrary: fa p)
  case Nil
  then show ?case by (simp add: char_rows_pending[of _ p _ True])
next
  case (Cons c g)
  then show ?case
    by (simp add: needs_quoting_def parse_process_char_def parse_add_char_def)
qed

lemma written_field:
  assumes "join_append f = Inr part" and "st = START_RECORD \<or> st = START_FIELD"
    and "t \<noteq> []"
  shows "char_rows (part @ t) p \<lparr>state = st, row = ro, field = []\<rparr> =
         char_rows t True (after_field st ro f)"
proof -
  from assms(1) have f0: "0 \<notin> set f" by (auto simp: join_append_def split: if_splits)
  show ?thesis
  proof (cases "list_ex needs_quoting f")
    case True
    with assms(1) f0 have part: "part = 34 # doubled f @ [34]"
      by (simp add: join_append_def)
    have "char_rows (part @ t) p \<lparr>state = st, row = ro, field = []\<rparr> =
          char_rows (doubled f @ 34 # t) True \<lparr>state = IN_QUOTED_FIELD, row = ro, field = []\<rparr>"
      using assms(2) by (auto simp: part parse_process_char_def start_field_def)
    also have "\<dots> = char_rows (34 # t) True \<lparr>state = IN_QUOTED_FIELD, row = ro, field = f\<rparr>"
      using quoted_content[OF f0, of "34 # t" True ro "[]"] by simp
    also have "\<dots> = char_rows t True \<lparr>state = QUOTE_IN_QUOTED_FIELD, row = ro, field = f\<rparr>"
      by (simp add: parse_process_char_def)
    finally show ?thesis using True by (simp add: after_field_def)
  next
    case False
    with assms(1) f0 have part: "part = f" by (simp add: join_append_def)
    from False f0 have plain: "\<forall>c \<in> set f. c \<noteq> 0 \<and> \<not> needs_quoting c"
      by (auto simp: list_ex_iff intro!: gr0I)
    show ?thesis
    proof (cases f)
      case Nil
      with part False assms(3) show ?thesis
        by (simp add: after_field_def char_rows_pending[of _ p _ True])
    next
      case (Cons c g)
      with plain have c: "c \<noteq> 0" "\<not> needs_quoting c"
        and g: "\<forall>c \<in> set g. c \<noteq> 0 \<and> \<not> needs_quoting c" by auto
      have "char_rows (part @ t) p \<lparr>state = st, row = ro, field = []\<rparr> =
            char_rows (g @ t) True \<lparr>state = IN_FIELD, row = ro, field = [c]\<rparr>"
        using assms(2) c
        by (auto simp: part Cons needs_quoting_def parse_process_char_def start_field_def
            parse_add_char_def)
      also have "\<dots> = char_rows t True \<lparr>state = IN_FIELD, row = ro, field = [c] @ g\<rparr>"
        by (rule unquoted_content[OF g assms(3)])
      finally show ?thesis using False Cons by (simp add: after_field_def)
    qed
  qed
qed

lemma after_field_comma:
  "st = START_RECORD \<or> st = START_FIELD \<Longrightarrow>
   char_rows (44 # rest) p (after_field st ro f) =
   char_rows rest True \<lparr>state = START_FIELD, row = ro @ [f], field = []\<rparr>"
  by (auto simp: after_field_def parse_process_char_def start_field_def parse_save_field_def)

lemma after_field_CRLF:
  "st = START_FIELD \<or> f \<noteq> [] \<or> list_ex needs_quoting f \<Longrightarrow>
   char_rows (13 # 10 # rest) p (after_field st ro f) =
     (case char_rows rest False parse_reset of
        Inl e \<Rightarrow> Inl e
      | Inr rows \<Rightarrow> Inr ((ro @ [f]) # rows))"
  by (auto simp: after_field_def parse_process_char_def start_field_def parse_save_field_def
      end_of_line_def split: sum.splits)

lemma join_fields_Cons:
  "join_fields (f # fs) = Inr parts \<Longrightarrow>
     \<exists>part parts'. join_append f = Inr part \<and> join_fields fs = Inr parts' \<and> parts = part # parts'"
  by (auto split: sum.splits)

lemma join_append_empty: "join_append f = Inr [] \<Longrightarrow> f = [] \<and> \<not> list_ex needs_quoting f"
  by (auto simp: join_append_def split: if_splits)

lemma join_fields_length: "join_fields fs = Inr parts \<Longrightarrow> length parts = length fs"
  by (induction fs arbitrary: parts) (auto split: sum.splits)

lemma written_fields:
  "join_fields fs = Inr parts \<Longrightarrow> fs \<noteq> [] \<Longrightarrow>
   st = START_FIELD \<or> (st = START_RECORD \<and> str_join [44] parts \<noteq> []) \<Longrightarrow>
   char_rows (str_join [44] parts @ 13 # 10 # rest) p \<lparr>state = st, row = ro, field = []\<rparr> =
     (case char_rows rest False parse_reset of
        Inl e \<Rightarrow> Inl e
      | Inr rows \<Rightarrow> Inr ((ro @ fs) # rows))"
proof (induction fs arbitrary: parts st ro p)
  case Nil
  then show ?case by simp
next
  case (Cons f fs)
  from join_fields_Cons[OF Cons.prems(1)] obtain part parts' where
    part: "join_append f = Inr part" and parts': "join_fields fs = Inr parts'"
    and parts: "parts = part # parts'" by blast
  from Cons.prems(3) have st: "st = START_RECORD \<or> st = START_FIELD" by auto
  show ?case
  proof (cases fs)
    case Nil
    with parts' parts have p1: "parts = [part]" by simp
    have ok: "st = START_FIELD \<or> f \<noteq> [] \<or> list_ex needs_quoting f"
      using Cons.prems(3) p1 part by (cases "part = []") (auto simp: join_append_def split: if_splits)
    have "char_rows (str_join [44] parts @ 13 # 10 # rest) p \<lparr>state = st, row = ro, field = []\<rparr>
          = char_rows (13 # 10 # rest) True (after_field st ro f)"
      unfolding p1 using written_field[OF part st, of "13 # 10 # rest" p ro] by simp
    also have "\<dots> = (case char_rows rest False parse_reset of
        Inl e \<Rightarrow> Inl e | Inr rows \<Rightarrow> Inr ((ro @ [f]) # rows))"
      by (rule after_field_CRLF[OF ok])
    finally show ?thesis unfolding Nil by (simp split: sum.splits)
  next
    case (Cons g gs)
    with parts' obtain p2 ps where ps: "parts' = p2 # ps" by (auto split: sum.splits)
    have js: "str_join [44] parts = part @ 44 # str_join [44] parts'"
      unfolding parts ps by simp
    have "char_rows (str_join [44] parts @ 13 # 10 # rest) p \<lparr>state = st, row = ro, field = []\<rparr>
          = char_rows (44 # str_join [44] parts' @ 13 # 10 # rest) True (after_field st ro f)"
      unfolding js using written_field[OF part st, of "44 # str_join [44] parts' @ 13 # 10 # rest" p ro]
      by simp
    also have "\<dots> = char_rows (str_join [44] parts' @ 13 # 10 # rest) True
                        \<lparr>state = START_FIELD, row = ro @ [f], field = []\<rparr>"
      by (rule after_field_comma[OF st])
    also have "\<dots> = (case char_rows rest False parse_reset of
        Inl e \<Rightarrow> Inl e | Inr rows \<Rightarrow> Inr (((ro @ [f]) @ fs) # rows))"
      using Cons by (intro Cons.IH[OF parts']) simp_all
    finally show ?thesis by (simp split: sum.splits)
  qed
qed

lemma str_join_empty: "str_join [44] parts = [] \<Longrightarrow> parts = [] \<or> parts = [[]]"
  by (induction "[44::nat]" parts rule: str_join.induct) auto

lemma written_row:
  assumes "csv_writerow fs = Inr line"
  shows "char_rows (line @ rest) p parse_reset =
     (case char_rows rest False parse_reset of
        Inl e \<Rightarrow> Inl e
      | Inr rows \<Rightarrow> Inr (fs # rows))"
proof -
  from assms obtain parts where parts: "join_fields fs = Inr parts"
    and line: "line = (if fs \<noteq> [] \<and> str_join [44] parts = [] then [34, 34] else str_join [44] parts)
                  @ [13, 10]"
    by (auto simp: csv_writerow_def Let_def split: sum.splits)
  show ?thesis
  proof (cases "fs = []")
    case True
    with parts line show ?thesis
      by (simp add: parse_reset_def parse_process_char_def end_of_line_def split: sum.splits)
  next
    case False
    show ?thesis
    proof (cases "str_join [44] parts = []")
      case True
      with False parts str_join_empty[OF True] join_fields_length[OF parts]
      have "parts = [[]]" by auto
      with parts False have "fs = [[]]"
        by (cases fs) (auto split: sum.splits dest: join_append_empty join_fields_length)
      with True line show ?thesis
        by (simp add: parse_reset_def parse_process_char_def start_field_def
            parse_save_field_def end_of_line_def split: sum.splits)
    next
      case nonempty: False
      with False line have "line = str_join [44] parts @ [13, 10]" by simp
      with written_fields[OF parts False, of START_RECORD rest p "[]"] nonempty
      show ?thesis by (simp add: parse_reset_def split: sum.splits)
    qed
  qed
qed

lemma written_rows:
  "list_all2 (\<lambda>fs line. csv_writerow fs = Inr line) rows lines \<Longrightarrow>
     csv_reader (concat lines) = Inr rows"
  unfolding csv_reader_char_rows
proof (induction rule: list_all2_induct)
  case Nil
  then show ?case by (simp add: parse_reset_def)
next
  case (Cons fs rows line lines)
  with written_row[OF Cons(1), of "concat lines" False] show ?case by simp
qed

lemma csv_writerow_ok:
  "\<forall>f \<in> set fs. 0 \<notin> set f \<Longrightarrow> \<exists>line. csv_writerow fs = Inr line"
proof -
  assume a: "\<forall>f \<in> set fs. 0 \<notin> set f"
  then have "\<exists>parts. join_fields fs = Inr parts"
    by (induction fs) (auto simp: join_append_def)
  then show ?thesis by (auto simp: csv_writerow_def Let_def)
qed

subsection \<open>Reading back what the JSON encoder wrote\<close>

lemma hex_value_hex_digit: "d < 16 \<Longrightarrow> hex_value (hex_digit d) = Some d"
  by (auto simp: hex_value_def hex_digit_def)

lemma hex4_small:
  assumes "c < 256"
  shows "hex 4 c = [48, 48, hex_digit (c div 16), hex_digit (c mod 16)]"
proof -
  have four: "(4::nat) = Suc (Suc (Suc (Suc 0)))" by simp
  have hi: "c div 16 div 16 = 0" and lo: "c div 16 mod 16 = c div 16" using assms by simp_all
  show ?thesis unfolding four by (simp add: hi lo hex_digit_def)
qed

lemma scanstring_unicode_escape:
  assumes "c < 32"
  shows "scanstring (92 # 117 # hex 4 c @ t) chunks = scanstring t (c # chunks)"
proof -
  have d: "c div 16 < 16" "c mod 16 < 16" using assms by auto
  have v: "16 * (c div 16) + c mod 16 = c" by simp
  have h0: "hex_value 48 = Some 0" by (simp add: hex_value_def)
  show ?thesis
    using assms
    by (simp add: hex4_small decode_uXXXX_def hex_value_hex_digit[OF d(1)]
        hex_value_hex_digit[OF d(2)] h0 v del: hex.simps)
qed

lemma scanstring_escaped:
  "scanstring (escaped s @ 34 # rest) chunks = Inr (rev chunks @ s, rest)"
proof (induction s arbitrary: chunks)
  case Nil
  show ?case by simp
next
  case (Cons c s)
  show ?case
  proof (cases "c < 32")
    case True
    note lt = this
    show ?thesis
    proof (cases "c = 8 \<or> c = 12 \<or> c = 10 \<or> c = 13 \<or> c = 9")
      case True
      then show ?thesis
        using Cons[of "c # chunks"]
        by (auto simp: ESCAPE_def ESCAPE_DCT_def BACKSLASH_def)
    next
      case False
      with lt have e: "escaped (c # s) @ 34 # rest = 92 # 117 # hex 4 c @ (escaped s @ 34 # rest)"
        by (auto simp: ESCAPE_def ESCAPE_DCT_def simp del: hex.simps)
      show ?thesis
        unfolding e scanstring_unicode_escape[OF lt] using Cons[of "c # chunks"] by simp
    qed
  next
    case False
    then show ?thesis
      using Cons[of "c # chunks"]
      by (auto simp: ESCAPE_def ESCAPE_DCT_def BACKSLASH_def)
  qed
qed

lemma scan_once_str_encoded:
  "scan_once_str (py_encode_basestring s @ rest) = Inr (s, rest)"
  using scanstring_escaped[of s rest "[]"]
  by (simp add: scan_once_str_def py_encode_basestring_def)

lemma encoded_items_head:
  "\<exists>t. str_join (ascii '', '') (map py_encode_basestring (x # xs)) @ rest = 34 # t"
  by (cases xs) (simp_all add: py_encode_basestring_def)

lemma array_items_encoded:
  "array_items (str_join (ascii '', '') (map py_encode_basestring (x # xs)) @ 93 # rest) vals
     = Inr (vals @ x # xs, rest)"
proof (induction xs arbitrary: x vals)
  case Nil
  show ?case
    by (subst array_items.simps) (simp add: scan_once_str_encoded WHITESPACE_def)
next
  case (Cons y ys)
  obtain t where t: "str_join (ascii '', '') (map py_encode_basestring (y # ys)) @ 93 # rest = 34 # t"
    using encoded_items_head[of y ys "93 # rest"] by blast
  have shape: "str_join (ascii '', '') (map py_encode_basestring (x # y # ys)) @ 93 # rest
      = py_encode_basestring x @ (44 # 32 # 34 # t)"
    using t by simp
  have IH: "array_items (34 # t) (vals @ [x]) = Inr ((vals @ [x]) @ y # ys, rest)"
    using Cons[of y "vals @ [x]"] unfolding t .
  show ?case
    unfolding shape
    by (subst array_items.simps) (simp add: scan_once_str_encoded WHITESPACE_def IH)
qed

lemma json_loads_dumps: "json_loads (json_dumps lst) = Inr lst"
proof (cases lst)
  case Nil
  then show ?thesis
    by (simp add: json_loads_def json_dumps_def JSONArray_def WHITESPACE_def)
next
  case (Cons x xs)
  obtain t where t: "str_join (ascii '', '') (map py_encode_basestring (x # xs)) @ [93] = 34 # t"
    using encoded_items_head[of x xs "[93]"] by blast
  have items: "array_items (34 # t) [] = Inr (x # xs, [])"
    using array_items_encoded[of x xs "[]" "[]"] unfolding t by simp
  have "json_dumps lst = 91 # 34 # t"
    using Cons t by (simp add: json_dumps_def)
  then show ?thesis
    by (simp add: json_loads_def JSONArray_def WHITESPACE_def items Cons)
qed

subsection \<open>The rows of the report\<close>

lemma str_nat_value: "foldl (\<lambda>a d. 10 * a + (d - 48)) 0 (str_nat k) = k"
proof (induction k rule: str_nat.induct)
  case (1 k)
  show ?case
  proof (cases "k < 10")
    case True
    then show ?thesis by (subst str_nat.simps) simp
  next
    case False
    with 1 show ?thesis by (subst str_nat.simps) simp
  qed
qed

lemma str_nat_inj: "str_nat j = str_nat k \<Longrightarrow> j = k"
  by (metis str_nat_value)

lemma str_nat_digits: "\<forall>c \<in> set (str_nat k). 48 \<le> c"
  by (induction k rule: str_nat.induct) (subst str_nat.simps, auto)

lemma str_nat_nonempty: "str_nat k \<noteq> []"
  by (subst str_nat.simps) simp

lemma str_int_inj: "str_int i = str_int j \<Longrightarrow> i = j"
proof -
  assume a: "str_int i = str_int j"
  have nd: "str_nat k \<noteq> 45 # t" for k t
    using str_nat_digits[of k] by (cases "str_nat k") auto
  show ?thesis
  proof (cases "i < 0"; cases "j < 0")
    assume "i < 0" "j < 0"
    with a have "nat (- i) = nat (- j)" by (auto simp: str_int_def dest: str_nat_inj)
    with \<open>i < 0\<close> \<open>j < 0\<close> show ?thesis by simp
  next
    assume "i < 0" "\<not> j < 0"
    with a nd[of "nat j" "str_nat (nat (- i))"] show ?thesis by (simp add: str_int_def)
  next
    assume "\<not> i < 0" "j < 0"
    with a nd[of "nat i" "str_nat (nat (- j))"] show ?thesis by (simp add: str_int_def)
  next
    assume "\<not> i < 0" "\<not> j < 0"
    with a have "nat i = nat j" by (auto simp: str_int_def dest: str_nat_inj)
    with \<open>\<not> i < 0\<close> \<open>\<not> j < 0\<close> show ?thesis by simp
  qed
qed

lemma loop_fout_any:
  "loop py ps w = (w', r) \<Longrightarrow>
     \<exists>lines. fout w' = fout w @ lines \<and> length lines \<le> length ps \<and>
       (r = None \<longrightarrow> length lines = length ps) \<and>
       list_all2 (\<lambda>(e, orig) line. DictWriter_writerow (make_out e orig) = Inr line)
         (take (length lines) ps) lines"
proof (induction ps arbitrary: w)
  case Nil
  then show ?case by simp
next
  case (Cons p ps)
  obtain e orig where p: "p = (e, orig)" by (cases p)
  obtain w1 r1 where b: "loop_body py e orig w = (w1, r1)" by (cases "loop_body py e orig w")
  show ?case
  proof (cases r1)
    case None
    with Cons.prems p b have l: "loop py ps w1 = (w', r)" by simp
    from loop_body_fout[OF b] None obtain line where
      line: "DictWriter_writerow (make_out e orig) = Inr line" "fout w1 = fout w @ [line]" by auto
    from Cons.IH[OF l] obtain lines where
      "fout w' = fout w1 @ lines" "length lines \<le> length ps"
      "r = None \<longrightarrow> length lines = length ps"
      "list_all2 (\<lambda>(e, orig) line. DictWriter_writerow (make_out e orig) = Inr line)
         (take (length lines) ps) lines" by blast
    with line p show ?thesis
      by (intro exI[of _ "line # lines"]) simp
  next
    case (Some x)
    with Cons.prems p b have "w' = w1" "r = Some x" by auto
    with loop_body_fout[OF b] Some show ?thesis
      by (intro exI[of _ "[]"]) simp
  qed
qed

lemma report_file_reads_back:
  assumes "report_writer py evs srcs = (w, r)"
  shows "csv_reader (concat (fout w)) =
           Inr (map ascii fieldnames # map report_row (take (length (fout w) - 1) (zip evs srcs)))"
    and "length (fout w) - 1 \<le> min (length evs) (length srcs)"
    and "r = None \<Longrightarrow> length (fout w) - 1 = min (length evs) (length srcs)"
proof -
  from assms obtain header where h: "DictWriter_writeheader = Inr header"
    and l: "loop py (zip evs srcs) \<lparr>stdout = [], fout = [header]\<rparr> = (w, r)"
    by (auto simp: report_writer_def writeheader_ok)
  from loop_fout_any[OF l] obtain lines where
    f: "fout w = [header] @ lines" and len: "length lines \<le> length (zip evs srcs)"
    and full: "r = None \<longrightarrow> length lines = length (zip evs srcs)"
    and a: "list_all2 (\<lambda>(e, orig) line. DictWriter_writerow (make_out e orig) = Inr line)
              (take (length lines) (zip evs srcs)) lines"
    by auto
  from a have "list_all2 (\<lambda>p line. csv_writerow (report_row p) = Inr line)
                 (take (length lines) (zip evs srcs)) lines"
    by (rule list_all2_mono)
      (auto simp: report_row_def DictWriter_writerow_def row_fields_make_out)
  then have "list_all2 (\<lambda>fs line. csv_writerow fs = Inr line)
                 (map report_row (take (length lines) (zip evs srcs))) lines"
    by (simp add: list_all2_map1)
  with h have "list_all2 (\<lambda>fs line. csv_writerow fs = Inr line)
                 (map ascii fieldnames # map report_row (take (length lines) (zip evs srcs)))
                 (header # lines)"
    by (simp add: DictWriter_writeheader_def)
  from written_rows[OF this] f
  show "csv_reader (concat (fout w)) =
           Inr (map ascii fieldnames # map report_row (take (length (fout w) - 1) (zip evs srcs)))"
    by simp
  from f len show "length (fout w) - 1 \<le> min (length evs) (length srcs)" by simp
  from f full show "r = None \<Longrightarrow> length (fout w) - 1 = min (length evs) (length srcs)" by simp
qed




subsection \<open>Evaluating what the JSON encoder and repr wrote\<close>

lemma hex_number_append:
  "hex_number a (xs @ ys) = (case hex_number a xs of None \<Rightarrow> None | Some v \<Rightarrow> hex_number v ys)"
  by (induction xs arbitrary: a) (auto split: option.splits)

lemma length_hex: "length (hex w c) = w"
  by (induction w arbitrary: c) auto

lemma hex_number_hex: "c < 16 ^ w \<Longrightarrow> hex_number a (hex w c) = Some (a * 16 ^ w + c)"
proof (induction w arbitrary: c a)
  case 0
  then show ?case by simp
next
  case (Suc w)
  have "c div 16 < 16 ^ w" using Suc.prems by (simp add: less_mult_imp_div_less mult.commute)
  from Suc.IH[OF this, of a] show ?case
    by (simp add: hex_number_append hex_value_hex_digit algebra_simps)
qed

lemma hex_escape_hex: "c < 16 ^ w \<Longrightarrow> hex_escape w (hex w c @ t) = Some c"
  by (simp add: hex_escape_def length_hex hex_number_hex)

lemma drop_hex: "drop w (hex w c @ t) = t"
  by (simp add: length_hex)


lemma string_literal_hex:
  assumes "q = 34 \<or> q = 39"
  shows "c < 256 \<Longrightarrow>
           string_literal q (92 # 120 # hex 2 c @ t) acc = string_literal q t (acc @ [c])"
    and "c < 65536 \<Longrightarrow>
           string_literal q (92 # 117 # hex 4 c @ t) acc = string_literal q t (acc @ [c])"
    and "c < 1114112 \<Longrightarrow>
           string_literal q (92 # 85 # hex 8 c @ t) acc = string_literal q t (acc @ [c])"
proof -
  show "string_literal q (92 # 120 # hex 2 c @ t) acc = string_literal q t (acc @ [c])"
    if "c < 256"
    using assms that hex_escape_hex[of c 2 t] by (auto simp: length_hex simp del: hex.simps)
  show "string_literal q (92 # 117 # hex 4 c @ t) acc = string_literal q t (acc @ [c])"
    if "c < 65536"
    using assms that hex_escape_hex[of c 4 t] by (auto simp: length_hex simp del: hex.simps)
  show "string_literal q (92 # 85 # hex 8 c @ t) acc = string_literal q t (acc @ [c])"
    if "c < 1114112"
    using assms that hex_escape_hex[of c 8 t] by (auto simp: length_hex simp del: hex.simps)
qed

lemma string_literal_backslash:
  assumes q: "q = 34 \<or> q = 39" and e: "esc = 92 \<or> esc = 39 \<or> esc = 34"
  shows "string_literal q (92 # esc # t) acc = string_literal q t (acc @ [esc])"
proof -
  from q have "q \<noteq> 92" "92 \<noteq> q" by auto
  with e show ?thesis by simp
qed

lemma string_literal_letter:
  assumes q: "q = 34 \<or> q = 39"
  shows "string_literal q (92 # 116 # t) acc = string_literal q t (acc @ [9])"
    and "string_literal q (92 # 110 # t) acc = string_literal q t (acc @ [10])"
    and "string_literal q (92 # 114 # t) acc = string_literal q t (acc @ [13])"
proof -
  from q have "q \<noteq> 92" "92 \<noteq> q" by auto
  then show "string_literal q (92 # 116 # t) acc = string_literal q t (acc @ [9])"
    and "string_literal q (92 # 110 # t) acc = string_literal q t (acc @ [10])"
    and "string_literal q (92 # 114 # t) acc = string_literal q t (acc @ [13])"
    by simp_all
qed

lemma string_literal_repr_char:
  assumes q: "q = 34 \<or> q = 39" and c: "c < 1114112"
  shows "string_literal q (repr_char ip q c @ t) acc = string_literal q t (acc @ [c])"
proof -
  note hx = string_literal_hex[OF q]
  show ?thesis
  proof (cases "c = q \<or> c = 92")
    case True
    then have r: "repr_char ip q c @ t = 92 # c # t" by (simp add: repr_char_def)
    from q True have "c = 92 \<or> c = 39 \<or> c = 34" by blast
    then show ?thesis unfolding r by (rule string_literal_backslash[OF q])
  next
    case n1: False
    show ?thesis
    proof (cases "c = 9 \<or> c = 10 \<or> c = 13")
      case True
      with n1 have r: "repr_char ip q c @ t =
          92 # (if c = 9 then 116 else if c = 10 then 110 else 114) # t"
        by (auto simp: repr_char_def)
      from True show ?thesis unfolding r using string_literal_letter[OF q, of t acc] by auto
    next
      case n2: False
      show ?thesis
      proof (cases "c < 32 \<or> c = 127")
        case True
        then have lt: "c < 256" by auto
        from True n1 n2 have r: "repr_char ip q c @ t = 92 # 120 # hex 2 c @ t"
          by (simp add: repr_char_def del: hex.simps)
        show ?thesis unfolding r by (rule hx(1)[OF lt])
      next
        case n3: False
        show ?thesis
        proof (cases "c < 127 \<or> ip c")
          case True
          with n1 n2 n3 have r: "repr_char ip q c @ t = c # t" by (auto simp: repr_char_def)
          from n1 n2 show ?thesis unfolding r by simp
        next
          case n4: False
          show ?thesis
          proof (cases "c \<le> 255")
            case True
            then have lt: "c < 256" by simp
            from True n1 n2 n3 n4 have r: "repr_char ip q c @ t = 92 # 120 # hex 2 c @ t"
              by (simp add: repr_char_def del: hex.simps)
            show ?thesis unfolding r by (rule hx(1)[OF lt])
          next
            case n5: False
            show ?thesis
            proof (cases "c \<le> 65535")
              case True
              then have lt: "c < 65536" by simp
              from True n1 n2 n3 n4 n5 have r: "repr_char ip q c @ t = 92 # 117 # hex 4 c @ t"
                by (simp add: repr_char_def del: hex.simps)
              show ?thesis unfolding r by (rule hx(2)[OF lt])
            next
              case False
              with n1 n2 n3 n4 n5 have r: "repr_char ip q c @ t = 92 # 85 # hex 8 c @ t"
                by (simp add: repr_char_def del: hex.simps)
              show ?thesis unfolding r by (rule hx(3)[OF c])
            qed
          qed
        qed
      qed
    qed
  qed
qed

lemma string_literal_repr_body:
  assumes q: "q = 34 \<or> q = 39"
  shows "\<forall>c \<in> set s. c < 1114112 \<Longrightarrow>
     string_literal q (concat (map (repr_char ip q) s) @ q # rest) acc = Inr (acc @ s, rest)"
proof (induction s arbitrary: acc)
  case Nil
  show ?case by simp
next
  case (Cons c s)
  then have c: "c < 1114112" and s: "\<forall>c \<in> set s. c < 1114112" by auto
  have "string_literal q (concat (map (repr_char ip q) (c # s)) @ q # rest) acc
      = string_literal q (repr_char ip q c @ (concat (map (repr_char ip q) s) @ q # rest)) acc" by simp
  also have "\<dots> = string_literal q (concat (map (repr_char ip q) s) @ q # rest) (acc @ [c])"
    by (rule string_literal_repr_char[OF q c])
  also have "\<dots> = Inr ((acc @ [c]) @ s, rest)" by (rule Cons.IH[OF s])
  finally show ?case by simp
qed

lemma list_display_space: "list_display (32 # s) items = list_display s items"
  by (simp add: list_display.simps[of "32 # s"] list_display.simps[of s])

lemma list_display_item:
  assumes q: "q = 34 \<or> q = 39" and lit: "string_literal q s [] = Inr (v, rest)"
  shows "list_display (q # s) items =
     (case skip_spaces rest of
        [] \<Rightarrow> Inl SyntaxError
      | d # rest' \<Rightarrow>
          if d = 44 then list_display rest' (items @ [v])
          else if d = 93 then (if rest' = [] then Inr (items @ [v]) else Inl NotModelled)
          else Inl NotModelled)"
proof -
  from q consider "q = 34" | "q = 39" by blast
  then show ?thesis
  proof cases
    case 1
    with lit show ?thesis by (simp add: list_display.simps[of "34 # s"])
  next
    case 2
    with lit show ?thesis by (simp add: list_display.simps[of "39 # s"])
  qed
qed

lemma list_display_last:
  assumes q: "q = 34 \<or> q = 39" and lit: "string_literal q s [] = Inr (v, [93])"
  shows "list_display (q # s) items = Inr (items @ [v])"
  by (simp add: list_display_item[OF q lit])

lemma list_display_next:
  assumes q: "q = 34 \<or> q = 39" and lit: "string_literal q s [] = Inr (v, 44 # 32 # rest)"
  shows "list_display (q # s) items = list_display rest (items @ [v])"
  by (simp add: list_display_item[OF q lit] list_display_space)

lemma repr_quote_cases: "repr_quote s = 34 \<or> repr_quote s = 39"
  by (simp add: repr_quote_def)

lemma py_repr_shape:
  "py_repr ip s = repr_quote s # concat (map (repr_char ip (repr_quote s)) s) @ [repr_quote s]"
  by (simp add: py_repr_def Let_def)

lemma list_display_repr:
  "\<forall>s \<in> set (x # xs). \<forall>c \<in> set s. c < 1114112 \<Longrightarrow>
   list_display (str_join (ascii '', '') (map (py_repr ip) (x # xs)) @ [93]) items
     = Inr (items @ x # xs)"
proof (induction xs arbitrary: x items)
  case Nil
  then have x: "\<forall>c \<in> set x. c < 1114112" by simp
  have shape: "str_join (ascii '', '') (map (py_repr ip) [x]) @ [93] =
      repr_quote x # (concat (map (repr_char ip (repr_quote x)) x) @ repr_quote x # [93])"
    by (simp add: py_repr_shape)
  show ?case
    unfolding shape
    using list_display_last[OF repr_quote_cases
        string_literal_repr_body[where ip=ip and rest="[93]" and acc="[]", OF repr_quote_cases x]]
    by simp
next
  case (Cons y ys)
  then have x: "\<forall>c \<in> set x. c < 1114112"
    and ys: "\<forall>s \<in> set (y # ys). \<forall>c \<in> set s. c < 1114112" by auto
  let ?tail = "str_join (ascii '', '') (map (py_repr ip) (y # ys)) @ [93]"
  have shape: "str_join (ascii '', '') (map (py_repr ip) (x # y # ys)) @ [93] =
      repr_quote x # (concat (map (repr_char ip (repr_quote x)) x) @ repr_quote x # (44 # 32 # ?tail))"
    by (simp add: py_repr_shape)
  have "list_display (str_join (ascii '', '') (map (py_repr ip) (x # y # ys)) @ [93]) items
      = list_display ?tail (items @ [x])"
    unfolding shape
    using list_display_next[OF repr_quote_cases
        string_literal_repr_body[where ip=ip and rest="44 # 32 # ?tail" and acc="[]",
          OF repr_quote_cases x]]
    by simp
  also have "\<dots> = Inr ((items @ [x]) @ y # ys)" by (rule Cons.IH[OF ys])
  finally show ?case by simp
qed

lemma list_display_repr_list:
  assumes "\<forall>s \<in> set lst. \<forall>c \<in> set s. c < 1114112"
  shows "list_display (tl (repr_list ip lst)) [] = Inr lst"
proof (cases lst)
  case Nil
  then show ?thesis by (simp add: repr_list_def list_display.simps[of "[93]"])
next
  case (Cons x xs)
  with assms list_display_repr[of x xs ip "[]"] show ?thesis by (simp add: repr_list_def)
qed

lemma repr_list_inj:
  assumes "\<forall>s \<in> set a. \<forall>c \<in> set s. c < 1114112" and "\<forall>s \<in> set b. \<forall>c \<in> set s. c < 1114112"
    and "repr_list ip a = repr_list ip b"
  shows "a = b"
proof -
  have "Inr a = list_display (tl (repr_list ip a)) []"
    by (simp only: list_display_repr_list[OF assms(1)])
  also have "\<dots> = list_display (tl (repr_list ip b)) []" by (simp only: assms(3))
  also have "\<dots> = Inr b" by (rule list_display_repr_list[OF assms(2)])
  finally show ?thesis by simp
qed

lemma string_literal_bf:
  assumes q: "q = 34 \<or> q = 39"
  shows "string_literal q (92 # 98 # t) acc = string_literal q t (acc @ [8])"
    and "string_literal q (92 # 102 # t) acc = string_literal q t (acc @ [12])"
proof -
  from q have "q \<noteq> 92" "92 \<noteq> q" by auto
  then show "string_literal q (92 # 98 # t) acc = string_literal q t (acc @ [8])"
    and "string_literal q (92 # 102 # t) acc = string_literal q t (acc @ [12])"
    by simp_all
qed

lemma string_literal_encoded_char:
  "string_literal 34 ((if ESCAPE c then ESCAPE_DCT c else [c]) @ t) acc
     = string_literal 34 t (acc @ [c])"
proof (cases "ESCAPE c")
  case False
  then have "c \<noteq> 34" "c \<noteq> 92" "c \<noteq> 10" "c \<noteq> 13" by (auto simp: ESCAPE_def)
  with False show ?thesis by simp
next
  case True
  have q: "(34::nat) = 34 \<or> (34::nat) = 39" by simp
  show ?thesis
  proof (cases "c = 92 \<or> c = 34")
    case True
    then have r: "(if ESCAPE c then ESCAPE_DCT c else [c]) @ t = 92 # c # t"
      by (auto simp: ESCAPE_def ESCAPE_DCT_def)
    from True have "c = 92 \<or> c = 39 \<or> c = 34" by blast
    then show ?thesis unfolding r by (rule string_literal_backslash[OF q])
  next
    case n1: False
    with True have lt: "c < 32" by (auto simp: ESCAPE_def)
    show ?thesis
    proof (cases "c = 8 \<or> c = 12 \<or> c = 10 \<or> c = 13 \<or> c = 9")
      case True
      then have r: "(if ESCAPE c then ESCAPE_DCT c else [c]) @ t =
          92 # (if c = 8 then 98 else if c = 12 then 102 else if c = 10 then 110
                else if c = 13 then 114 else 116) # t"
        by (auto simp: ESCAPE_def ESCAPE_DCT_def)
      from True show ?thesis unfolding r
        using string_literal_letter[OF q, of t acc] string_literal_bf[OF q, of t acc] by auto
    next
      case False
      with lt n1 have r: "(if ESCAPE c then ESCAPE_DCT c else [c]) @ t = 92 # 117 # hex 4 c @ t"
        by (simp add: ESCAPE_def ESCAPE_DCT_def del: hex.simps)
      from lt have "c < 65536" by simp
      then show ?thesis unfolding r by (rule string_literal_hex(2)[OF q])
    qed
  qed
qed

lemma string_literal_encoded:
  "string_literal 34 (concat (map (\<lambda>c. if ESCAPE c then ESCAPE_DCT c else [c]) s) @ 34 # rest) acc
     = Inr (acc @ s, rest)"
proof (induction s arbitrary: acc)
  case Nil
  show ?case by simp
next
  case (Cons c s)
  let ?enc = "\<lambda>c. if ESCAPE c then ESCAPE_DCT c else [c]"
  have "string_literal 34 (concat (map ?enc (c # s)) @ 34 # rest) acc
      = string_literal 34 (?enc c @ (concat (map ?enc s) @ 34 # rest)) acc" by simp
  also have "\<dots> = string_literal 34 (concat (map ?enc s) @ 34 # rest) (acc @ [c])"
    by (rule string_literal_encoded_char)
  also have "\<dots> = Inr ((acc @ [c]) @ s, rest)" by (rule Cons.IH)
  finally show ?case by simp
qed

lemma list_display_encoded:
  "list_display (str_join (ascii '', '') (map py_encode_basestring (x # xs)) @ [93]) items
     = Inr (items @ x # xs)"
proof (induction xs arbitrary: x items)
  case Nil
  have q: "(34::nat) = 34 \<or> (34::nat) = 39" by simp
  have shape: "str_join (ascii '', '') (map py_encode_basestring [x]) @ [93] =
      34 # (concat (map (\<lambda>c. if ESCAPE c then ESCAPE_DCT c else [c]) x) @ 34 # [93])"
    by (simp add: py_encode_basestring_def)
  show ?case
    unfolding shape
    using list_display_last[OF q string_literal_encoded[where rest="[93]" and acc="[]"]]
    by simp
next
  case (Cons y ys)
  have q: "(34::nat) = 34 \<or> (34::nat) = 39" by simp
  let ?tail = "str_join (ascii '', '') (map py_encode_basestring (y # ys)) @ [93]"
  have shape: "str_join (ascii '', '') (map py_encode_basestring (x # y # ys)) @ [93] =
      34 # (concat (map (\<lambda>c. if ESCAPE c then ESCAPE_DCT c else [c]) x) @ 34 # (44 # 32 # ?tail))"
    by (simp add: py_encode_basestring_def)
  have "list_display (str_join (ascii '', '') (map py_encode_basestring (x # y # ys)) @ [93]) items
      = list_display ?tail (items @ [x])"
    unfolding shape
    using list_display_next[OF q
        string_literal_encoded[where rest="44 # 32 # ?tail" and acc="[]"]]
    by simp
  also have "\<dots> = Inr ((items @ [x]) @ y # ys)" by (rule Cons.IH)
  finally show ?case by simp
qed

lemma set_hex: "x \<in> set (hex w c) \<Longrightarrow> 48 \<le> x \<and> x \<le> 102"
proof (induction w arbitrary: c)
  case 0
  then show ?case by simp
next
  case (Suc w)
  have "c mod 16 < 16" by simp
  then have "48 \<le> hex_digit (c mod 16) \<and> hex_digit (c mod 16) \<le> 102"
    unfolding hex_digit_def by auto
  with Suc show ?case by auto
qed

lemma set_ESCAPE_DCT: "x \<in> set (ESCAPE_DCT c) \<Longrightarrow> 34 \<le> x \<and> x \<le> 117"
  using set_hex[of x 4 c] by (auto simp: ESCAPE_DCT_def simp del: hex.simps split: if_splits)

lemma set_encoded:
  "x \<in> set (py_encode_basestring s) \<Longrightarrow> (34 \<le> x \<and> x \<le> 117) \<or> (x \<in> set s \<and> 32 \<le> x)"
  by (auto simp: py_encode_basestring_def ESCAPE_def dest: set_ESCAPE_DCT split: if_splits)

lemma set_str_join:
  "x \<in> set (str_join sep xs) \<Longrightarrow> x \<in> set sep \<or> (\<exists>s \<in> set xs. x \<in> set s)"
  by (induction sep xs rule: str_join.induct) auto

lemma set_json_dumps:
  assumes "x \<in> set (json_dumps lst)"
  shows "(32 \<le> x \<and> x \<le> 117) \<or> (\<exists>s \<in> set lst. x \<in> set s \<and> 32 \<le> x)"
proof (cases "lst = []")
  case True
  with assms show ?thesis by (auto simp: json_dumps_def)
next
  case False
  with assms have "x = 91 \<or> x = 93 \<or> x \<in> set (str_join (ascii '', '') (map py_encode_basestring lst))"
    by (auto simp: json_dumps_def)
  then show ?thesis
  proof (elim disjE)
    assume "x \<in> set (str_join (ascii '', '') (map py_encode_basestring lst))"
    from set_str_join[OF this] show ?thesis
      by (auto dest: set_encoded)
  qed auto
qed

lemma literal_eval_json_dumps:
  assumes "\<forall>s \<in> set lst. \<not> list_ex is_surrogate s"
  shows "literal_eval (json_dumps lst) = Inr lst"
proof -
  have a: "\<not> list_ex is_surrogate (json_dumps lst)"
  proof
    assume "list_ex is_surrogate (json_dumps lst)"
    then obtain x where x: "x \<in> set (json_dumps lst)" "is_surrogate x"
      by (auto simp: list_ex_iff)
    from set_json_dumps[OF x(1)] x(2) assms show False
      by (auto simp: is_surrogate_def list_ex_iff)
  qed
  have b: "0 \<notin> set (json_dumps lst)"
    using set_json_dumps[of 0 lst] by auto
  show ?thesis
  proof (cases lst)
    case Nil
    with a b show ?thesis
      by (simp add: literal_eval_def json_dumps_def list_display.simps[of "[93]"])
  next
    case (Cons x xs)
    have "literal_eval (json_dumps lst) =
        list_display (str_join (ascii '', '') (map py_encode_basestring (x # xs)) @ [93]) []"
      using a b unfolding literal_eval_def by (simp add: json_dumps_def Cons)
    then show ?thesis unfolding list_display_encoded using Cons by simp
  qed
qed

subsection \<open>Claims about the report\<close>

lemma loop_body_stdout:
  assumes "eval_repr py (encode_choices (en_choices e)) = Inr new"
    and "eval_repr py (orig_en_choices orig) = Inr old"
  shows "stdout (fst (loop_body py e orig w)) =
     stdout w
     @ (if en_question e \<noteq> orig_en_question orig
        then [ascii ''Different question:'', ascii ''New: '' @ en_question e,
              ascii ''Old: '' @ orig_en_question orig, []]
        else [])
     @ (if new \<noteq> old
        then [ascii ''Different choices:'',
              ascii ''New: '' @ repr_str py (encode_choices (en_choices e)),
              ascii ''Old: '' @ repr_str py (orig_en_choices orig), []]
        else [])"
  using assms
  by (simp add: loop_body_def Let_def make_out_def print_def fout_write_def
      question_diagnostic_def choices_diagnostic_def split: sum.splits)

lemma repr_str_python: "repr_str (python isprintable) = py_repr isprintable"
  by (simp add: python_def)

lemma tricky_eval_new:
  "eval_repr (python (\<lambda>c. True)) (encode_choices (en_choices tricky_evaluation)) =
     Inr (repr_list (\<lambda>c. True) [ascii ''100'' @ [176, 67], [34, 48, 34] @ [176, 67]])"
  by (simp add: python_eval json_eval tricky_evaluation_def)

lemma water_eval_old:
  "eval_repr (python (\<lambda>c. True)) (orig_en_choices (load_entry water)) =
     Inr (repr_list (\<lambda>c. True) (choices_of water))"
  by (simp add: python_eval json_eval sample_eval)

lemma water_eval_new:
  "eval_repr (python (\<lambda>c. True)) (encode_choices (en_choices water_evaluation)) =
     Inr (repr_list (\<lambda>c. True) (choices_of water))"
  by (simp add: python_eval json_eval sample_eval)

lemma loop_body_raises:
  assumes "eval_repr py (encode_choices (en_choices e)) = Inl x \<or>
           (\<exists>v. eval_repr py (encode_choices (en_choices e)) = Inr v) \<and>
           eval_repr py (orig_en_choices orig) = Inl x"
  shows "loop_body py e orig w =
     (w\<lparr>stdout := stdout w
          @ (if en_question e \<noteq> orig_en_question orig
             then [ascii ''Different question:'', ascii ''New: '' @ en_question e,
                   ascii ''Old: '' @ orig_en_question orig, []]
             else [])\<rparr>, Some x)"
  using assms
  by (auto simp: loop_body_def Let_def make_out_def print_def question_diagnostic_def
      split: sum.splits)

lemma eval_repr_python:
  "literal_eval s = Inr lst \<Longrightarrow> eval_repr (python ip) s = Inr (repr_list ip lst)"
  by (simp add: python_def)

lemma loop_body_stdout_python:
  assumes a: "literal_eval (encode_choices (en_choices e)) = Inr lst"
    and b: "literal_eval (orig_en_choices orig) = Inr lst'"
    and c: "code_points lst" "code_points lst'"
  shows "stdout (fst (loop_body (python ip) e orig w)) =
     stdout w
     @ (if en_question e \<noteq> orig_en_question orig
        then [ascii ''Different question:'', ascii ''New: '' @ en_question e,
              ascii ''Old: '' @ orig_en_question orig, []]
        else [])
     @ (if lst \<noteq> lst'
        then [ascii ''Different choices:'',
              ascii ''New: '' @ py_repr ip (encode_choices (en_choices e)),
              ascii ''Old: '' @ py_repr ip (orig_en_choices orig), []]
        else [])"
proof -
  have inj: "(repr_list ip lst \<noteq> repr_list ip lst') = (lst \<noteq> lst')"
    using repr_list_inj[of lst lst' ip] c by (auto simp: code_points_def)
  show ?thesis
    unfolding loop_body_stdout[OF eval_repr_python[OF a] eval_repr_python[OF b]] inj
      repr_str_python ..
qed

text \<open>
  C6, as the code has it. The question is compared first: when the returned
  \<^verbatim>\<open>en_question\<close> differs from the source's, the four lines "Different question:", "New: "
  with the returned question, "Old: " with the source's, and an empty line are printed, and
  nothing when they are equal. The choices are compared through \<^verbatim>\<open>eval\<close>. When evaluating
  the returned choices text, or then the source's, raises, the turn ends with that
  exception: only the question lines were printed, and no choices diagnostic, whether or
  not the choices differ. When both texts evaluate, the four lines "Different choices:",
  "New: " and "Old: " with the \<^verbatim>\<open>repr\<close> of the two texts, and an empty line are printed
  exactly when the \<^verbatim>\<open>repr\<close> of the two values differ. For Python's \<^verbatim>\<open>eval\<close> and \<^verbatim>\<open>repr\<close> on
  lists of texts that is exactly when the two lists differ; in particular, for a returned
  list and a source record read by the dataset loader (no lone surrogates), the choices
  diagnostic is printed exactly when the returned list differs from the source's list.
\<close>

theorem diagnostics_printed_iff_different:
  "((eval_repr py (encode_choices (en_choices e)) = Inl x \<or>
     (\<exists>v. eval_repr py (encode_choices (en_choices e)) = Inr v) \<and>
     eval_repr py (orig_en_choices orig) = Inl x) \<longrightarrow>
      loop_body py e orig w =
        (w\<lparr>stdout := stdout w
             @ (if en_question e \<noteq> orig_en_question orig
                then [ascii ''Different question:'', ascii ''New: '' @ en_question e,
                      ascii ''Old: '' @ orig_en_question orig, []]
                else [])\<rparr>, Some x)) \<and>
   (eval_repr py (encode_choices (en_choices e)) = Inr new \<longrightarrow>
    eval_repr py (orig_en_choices orig) = Inr old \<longrightarrow>
      stdout (fst (loop_body py e orig w)) =
        stdout w
        @ (if en_question e \<noteq> orig_en_question orig
           then [ascii ''Different question:'', ascii ''New: '' @ en_question e,
                 ascii ''Old: '' @ orig_en_question orig, []]
           else [])
        @ (if new \<noteq> old
           then [ascii ''Different choices:'',
                 ascii ''New: '' @ repr_str py (encode_choices (en_choices e)),
                 ascii ''Old: '' @ repr_str py (orig_en_choices orig), []]
           else [])) \<and>
   (literal_eval (encode_choices (en_choices e)) = Inr lst \<longrightarrow>
    literal_eval (orig_en_choices orig) = Inr lst' \<longrightarrow>
    code_points lst \<longrightarrow> code_points lst' \<longrightarrow>
      stdout (fst (loop_body (python isprintable) e orig w)) =
        stdout w
        @ (if en_question e \<noteq> orig_en_question orig
           then [ascii ''Different question:'', ascii ''New: '' @ en_question e,
                 ascii ''Old: '' @ orig_en_question orig, []]
           else [])
        @ (if lst \<noteq> lst'
           then [ascii ''Different choices:'',
                 ascii ''New: '' @ py_repr isprintable (encode_choices (en_choices e)),
                 ascii ''Old: '' @ py_repr isprintable (orig_en_choices orig), []]
           else [])) \<and>
   (en_choices e = ChoiceList lst \<longrightarrow>
    code_points lst \<longrightarrow> no_surrogates lst \<longrightarrow>
    code_points (choices_of entry) \<longrightarrow> no_surrogates (choices_of entry) \<longrightarrow>
      stdout (fst (loop_body (python isprintable) e (load_entry entry) w)) =
        stdout w
        @ (if en_question e \<noteq> question entry
           then [ascii ''Different question:'', ascii ''New: '' @ en_question e,
                 ascii ''Old: '' @ question entry, []]
           else [])
        @ (if lst \<noteq> choices_of entry
           then [ascii ''Different choices:'',
                 ascii ''New: '' @ py_repr isprintable (json_dumps lst),
                 ascii ''Old: '' @ py_repr isprintable (json_dumps (choices_of entry)), []]
           else []))"
proof (intro conjI impI)
  assume "eval_repr py (encode_choices (en_choices e)) = Inl x \<or>
     (\<exists>v. eval_repr py (encode_choices (en_choices e)) = Inr v) \<and>
     eval_repr py (orig_en_choices orig) = Inl x"
  then show "loop_body py e orig w =
        (w\<lparr>stdout := stdout w
             @ (if en_question e \<noteq> orig_en_question orig
                then [ascii ''Different question:'', ascii ''New: '' @ en_question e,
                      ascii ''Old: '' @ orig_en_question orig, []]
                else [])\<rparr>, Some x)"
    by (rule loop_body_raises)
next
  assume "eval_repr py (encode_choices (en_choices e)) = Inr new"
    and "eval_repr py (orig_en_choices orig) = Inr old"
  then show "stdout (fst (loop_body py e orig w)) =
        stdout w
        @ (if en_question e \<noteq> orig_en_question orig
           then [ascii ''Different question:'', ascii ''New: '' @ en_question e,
                 ascii ''Old: '' @ orig_en_question orig, []]
           else [])
        @ (if new \<noteq> old
           then [ascii ''Different choices:'',
                 ascii ''New: '' @ repr_str py (encode_choices (en_choices e)),
                 ascii ''Old: '' @ repr_str py (orig_en_choices orig), []]
           else [])"
    by (rule loop_body_stdout)
next
  assume "literal_eval (encode_choices (en_choices e)) = Inr lst"
    and "literal_eval (orig_en_choices orig) = Inr lst'"
    and "code_points lst" and "code_points lst'"
  then show "stdout (fst (loop_body (python isprintable) e orig w)) =
        stdout w
        @ (if en_question e \<noteq> orig_en_question orig
           then [ascii ''Different question:'', ascii ''New: '' @ en_question e,
                 ascii ''Old: '' @ orig_en_question orig, []]
           else [])
        @ (if lst \<noteq> lst'
           then [ascii ''Different choices:'',
                 ascii ''New: '' @ py_repr isprintable (encode_choices (en_choices e)),
                 ascii ''Old: '' @ py_repr isprintable (orig_en_choices orig), []]
           else [])"
    by (rule loop_body_stdout_python)
next
  assume l: "en_choices e = ChoiceList lst"
    and c: "code_points lst" "code_points (choices_of entry)"
    and s: "no_surrogates lst" "no_surrogates (choices_of entry)"
  have a: "literal_eval (encode_choices (en_choices e)) = Inr lst"
    using literal_eval_json_dumps[of lst] s(1) l by (simp add: no_surrogates_def)
  have b: "literal_eval (orig_en_choices (load_entry entry)) = Inr (choices_of entry)"
    using literal_eval_json_dumps[of "choices_of entry"] s(2)
    by (simp add: no_surrogates_def load_entry_def)
  from loop_body_stdout_python[OF a b c, of isprintable w] l
  show "stdout (fst (loop_body (python isprintable) e (load_entry entry) w)) =
        stdout w
        @ (if en_question e \<noteq> question entry
           then [ascii ''Different question:'', ascii ''New: '' @ en_question e,
                 ascii ''Old: '' @ question entry, []]
           else [])
        @ (if lst \<noteq> choices_of entry
           then [ascii ''Different choices:'',
                 ascii ''New: '' @ py_repr isprintable (json_dumps lst),
                 ascii ''Old: '' @ py_repr isprintable (json_dumps (choices_of entry)), []]
           else [])"
    by (simp add: load_entry_def)
qed

lemma bracket_eval:
  "eval_repr (python (\<lambda>c. True)) (encode_choices (en_choices bracket_evaluation)) = Inl SyntaxError"
  by (simp add: python_eval bracket_evaluation_def tricky_evaluation_def)

lemma tricky_literal:
  "literal_eval (encode_choices (en_choices tricky_evaluation)) =
     Inr [ascii ''100'' @ [176, 67], [34, 48, 34] @ [176, 67]]"
  by (simp add: python_eval json_eval tricky_evaluation_def)

lemma water_literal:
  "literal_eval (orig_en_choices (load_entry water)) = Inr (choices_of water)"
  "literal_eval (encode_choices (en_choices water_evaluation)) = Inr (choices_of water)"
  by (simp_all add: python_eval json_eval sample_eval)

lemma sample_texts:
  "code_points [ascii ''100'' @ [176, 67], [34, 48, 34] @ [176, 67]]"
  "no_surrogates [ascii ''100'' @ [176, 67], [34, 48, 34] @ [176, 67]]"
  "code_points (choices_of water)"
  "no_surrogates (choices_of water)"
  by (simp_all add: code_points_def no_surrogates_def is_surrogate_def water_def)

theorem diagnostics_printed_iff_different_witness:
  "loop_body (python (\<lambda>c. True)) bracket_evaluation (load_entry water) \<lparr>stdout = [], fout = []\<rparr> =
     (\<lparr>stdout = [ascii ''Different question:'',
                  ascii ''New: What, then, is the boiling point of water?'',
                  ascii ''Old: What is the boiling point of water?'',
                  []],
       fout = []\<rparr>, Some SyntaxError) \<and>
   stdout (fst (loop_body (python (\<lambda>c. True)) tricky_evaluation (load_entry water)
                  \<lparr>stdout = [], fout = []\<rparr>)) =
     [ascii ''Different question:'',
      ascii ''New: What, then, is the boiling point of water?'',
      ascii ''Old: What is the boiling point of water?'',
      [],
      ascii ''Different choices:'',
      ascii ''New: '' @ py_repr (\<lambda>c. True)
                          (json_dumps [ascii ''100'' @ [176, 67], [34, 48, 34] @ [176, 67]]),
      ascii ''Old: '' @ py_repr (\<lambda>c. True) (json_dumps (choices_of water)),
      []] \<and>
   stdout (fst (loop_body (python (\<lambda>c. True)) water_evaluation (load_entry water)
                  \<lparr>stdout = [], fout = []\<rparr>)) = []"
  using diagnostics_printed_iff_different[where py="python (\<lambda>c. True)" and e=bracket_evaluation
      and orig="load_entry water" and w="\<lparr>stdout = [], fout = []\<rparr>" and x=SyntaxError]
    diagnostics_printed_iff_different[where py="python (\<lambda>c. True)" and e=tricky_evaluation
      and orig="load_entry water" and w="\<lparr>stdout = [], fout = []\<rparr>"
      and new="repr_list (\<lambda>c. True) [ascii ''100'' @ [176, 67], [34, 48, 34] @ [176, 67]]"
      and old="repr_list (\<lambda>c. True) (choices_of water)"
      and lst="[ascii ''100'' @ [176, 67], [34, 48, 34] @ [176, 67]]"
      and lst'="choices_of water" and isprintable="\<lambda>c. True" and entry=water]
    diagnostics_printed_iff_different[where py="python (\<lambda>c. True)" and e=water_evaluation
      and orig="load_entry water" and w="\<lparr>stdout = [], fout = []\<rparr>"
      and new="repr_list (\<lambda>c. True) (choices_of water)"
      and old="repr_list (\<lambda>c. True) (choices_of water)"
      and lst="choices_of water"
      and lst'="choices_of water" and isprintable="\<lambda>c. True" and entry=water]
    bracket_eval tricky_eval_new water_eval_old water_eval_new tricky_literal water_literal
    sample_texts
  by (simp add: repr_str_python repr_list_def py_repr_def repr_quote_def repr_char_def
      json_eval sample_eval tricky_evaluation_def bracket_evaluation_def)

text \<open>
  C6 as stated fails: the returned choices text \<^verbatim>\<open>[\<close> differs from the source's choices, yet
  nothing is printed; evaluating it raises a syntax error before the diagnostic is reached.
\<close>

theorem choices_differ_eval_raises_counterexample:
  "encode_choices (en_choices unparsable_evaluation) \<noteq> orig_en_choices (load_entry water) \<and>
   loop_body (python (\<lambda>c. True)) unparsable_evaluation (load_entry water)
       \<lparr>stdout = [], fout = []\<rparr> =
     (\<lparr>stdout = [], fout = []\<rparr>, Some SyntaxError)"
  by (simp add: report_eval python_eval json_eval sample_eval unparsable_evaluation_def)

lemma zip_append_Cons:
  "length xs = length ys \<Longrightarrow> zip (xs @ x # xs') (ys @ y # ys') = zip xs ys @ (x, y) # zip xs' ys'"
  by simp

lemma loop_body_eval_fails:
  assumes "eval_repr py (encode_choices (en_choices e)) = Inl x \<or>
           (\<exists>v. eval_repr py (encode_choices (en_choices e)) = Inr v) \<and>
           eval_repr py (orig_en_choices orig) = Inl x"
  shows "snd (loop_body py e orig w) = Some x" and "fout (fst (loop_body py e orig w)) = fout w"
  using assms
  by (auto simp: loop_body_def Let_def make_out_def print_def question_diagnostic_def
      split: sum.splits)

text \<open>
  C5, as the code has it. The choices texts are re-read by \<^verbatim>\<open>eval\<close>, not by a JSON parser.
  When evaluating the returned choices text, or then the source's, raises an exception,
  nothing catches it: the run ends with that exception at that pair, the file holds the
  rows of the pairs before it and nothing more, and the later pairs are not processed.
\<close>

theorem eval_failure_aborts_run:
  "length evs1 = length srcs1 \<longrightarrow>
   report_writer py evs1 srcs1 = (w, None) \<longrightarrow>
   (eval_repr py (encode_choices (en_choices e)) = Inl x \<or>
    (\<exists>v. eval_repr py (encode_choices (en_choices e)) = Inr v) \<and>
    eval_repr py (orig_en_choices orig) = Inl x) \<longrightarrow>
     snd (report_writer py (evs1 @ e # evs2) (srcs1 @ orig # srcs2)) = Some x \<and>
     fout (fst (report_writer py (evs1 @ e # evs2) (srcs1 @ orig # srcs2))) = fout w"
proof (intro impI)
  assume len: "length evs1 = length srcs1"
    and ok: "report_writer py evs1 srcs1 = (w, None)"
    and fails: "eval_repr py (encode_choices (en_choices e)) = Inl x \<or>
      (\<exists>v. eval_repr py (encode_choices (en_choices e)) = Inr v) \<and>
      eval_repr py (orig_en_choices orig) = Inl x"
  from ok obtain header where
    l: "loop py (zip evs1 srcs1) \<lparr>stdout = [], fout = [header]\<rparr> = (w, None)"
    and h: "DictWriter_writeheader = Inr header"
    by (auto simp: report_writer_def writeheader_ok)
  obtain w1 where b: "loop_body py e orig w = (w1, Some x)"
    using loop_body_eval_fails(1)[OF fails, of w] by (cases "loop_body py e orig w") auto
  have "report_writer py (evs1 @ e # evs2) (srcs1 @ orig # srcs2) = (w1, Some x)"
    unfolding report_writer_def h zip_append_Cons[OF len]
    using loop_append[OF l, of "(e, orig) # zip evs2 srcs2"] b by simp
  moreover have "fout w1 = fout w"
    using loop_body_eval_fails(2)[OF fails, of w] b by simp
  ultimately show "snd (report_writer py (evs1 @ e # evs2) (srcs1 @ orig # srcs2)) = Some x \<and>
     fout (fst (report_writer py (evs1 @ e # evs2) (srcs1 @ orig # srcs2))) = fout w"
    by simp
qed

lemma water_run:
  "snd (report_writer (python (\<lambda>c. True)) [water_evaluation] [load_entry water]) = None"
  by (simp add: report_eval csv_eval python_eval json_eval sample_eval)

lemma unparsable_eval:
  "eval_repr (python (\<lambda>c. True)) (encode_choices (en_choices unparsable_evaluation)) = Inl SyntaxError"
  by (simp add: python_eval sample_eval unparsable_evaluation_def)

theorem eval_failure_aborts_run_witness:
  "snd (report_writer (python (\<lambda>c. True))
          ([water_evaluation] @ unparsable_evaluation # [water_evaluation])
          ([load_entry water] @ load_entry water # [load_entry water])) = Some SyntaxError \<and>
   fout (fst (report_writer (python (\<lambda>c. True))
          ([water_evaluation] @ unparsable_evaluation # [water_evaluation])
          ([load_entry water] @ load_entry water # [load_entry water])))
     = fout (fst (report_writer (python (\<lambda>c. True)) [water_evaluation] [load_entry water]))"
  using eval_failure_aborts_run[of "[water_evaluation]" "[load_entry water]" "python (\<lambda>c. True)"
      "fst (report_writer (python (\<lambda>c. True)) [water_evaluation] [load_entry water])"
      unparsable_evaluation SyntaxError "load_entry water" "[water_evaluation]" "[load_entry water]"]
    water_run unparsable_eval
  by (simp add: prod_eq_iff)

text \<open>
  C5 as stated fails: the text \<^verbatim>\<open>['a']\<close> is not valid JSON, yet it is a Python expression; the
  comparison step evaluates it without raising (here to the same value as the source's
  \<^verbatim>\<open>["a"]\<close>), and the run completes.
\<close>

theorem not_json_but_evaluates_counterexample:
  "encode_choices (en_choices quoted_evaluation) = [91, 39, 97, 39, 93] \<and>
   json_loads [91, 39, 97, 39, 93] = Inl JSONDecodeError \<and>
   eval_repr (python (\<lambda>c. True)) [91, 39, 97, 39, 93] = Inr [91, 39, 97, 39, 93] \<and>
   eval_repr (python (\<lambda>c. True)) (orig_en_choices one_choice) = Inr [91, 39, 97, 39, 93] \<and>
   snd (report_writer (python (\<lambda>c. True)) [quoted_evaluation] [one_choice]) = None"
  by (simp add: report_eval csv_eval python_eval json_eval sample_eval quoted_evaluation_def
      one_choice_def)


lemma report_row_nth:
  "report_row (e, orig) ! 1 = encode_choices (en_choices e)"
  "report_row (e, orig) ! 3 = encode_choices (trad_zh_choices e)"
  "report_row (e, orig) ! 5 = str_int (score e)"
  "length (report_row (e, orig)) = 7"
  by (simp_all add: report_row_def)

lemma report_rows_nth:
  assumes "k < length (fout w) - 1" and "length (fout w) - 1 \<le> min (length evs) (length srcs)"
  shows "map report_row (take (length (fout w) - 1) (zip evs srcs)) ! k
           = report_row (evs ! k, srcs ! k)"
  using assms by simp

lemma tricky_run_fout:
  "snd (report_writer (python (\<lambda>c. True)) [tricky_evaluation] [load_entry water]) = None"
  "length (fout (fst (report_writer (python (\<lambda>c. True)) [tricky_evaluation] [load_entry water]))) = 2"
  by (simp_all add: report_eval csv_eval python_eval json_eval sample_eval tricky_evaluation_def)

text \<open>
  C3. The header row is exactly the seven names, in order. Whatever the run writes, the
  standard reader reads the file back as the header followed by one row per pair written,
  each with exactly the seven fields \<^verbatim>\<open>en_question\<close>, \<^verbatim>\<open>en_choices\<close>, \<^verbatim>\<open>trad_zh_question\<close>,
  \<^verbatim>\<open>trad_zh_choices\<close>, \<^verbatim>\<open>answer\<close>, \<^verbatim>\<open>score\<close>, \<^verbatim>\<open>differences\<close> as the writer was given them, also
  when a text holds commas, quotes or line breaks; and any single row the writer accepts
  reads back as itself. (A text with the character 0 is refused by the Python 3.10 writer,
  so no such row is written.)
\<close>

theorem report_csv_reads_back:
  "DictWriter_writeheader =
     Inr (ascii ''en_question,en_choices,trad_zh_question,trad_zh_choices,answer,score,differences''
            @ [13, 10]) \<and>
   (csv_writerow fs = Inr line \<longrightarrow> csv_reader line = Inr [fs]) \<and>
   (report_writer py evs srcs = (w, r) \<longrightarrow>
      csv_reader (concat (fout w)) =
        Inr (map ascii fieldnames #
             map (\<lambda>(e, orig).
                    [en_question e, encode_choices (en_choices e), trad_zh_question e,
                     encode_choices (trad_zh_choices e), str_int (orig_answer orig),
                     str_int (score e), differences e])
               (take (length (fout w) - 1) (zip evs srcs))))"
proof (intro conjI impI)
  show "DictWriter_writeheader =
     Inr (ascii ''en_question,en_choices,trad_zh_question,trad_zh_choices,answer,score,differences''
            @ [13, 10])"
    by (rule writeheader_ok)
  show "csv_reader line = Inr [fs]" if "csv_writerow fs = Inr line"
    using written_rows[of "[fs]" "[line]"] that by simp
  have "report_row = (\<lambda>(e, orig).
                    [en_question e, encode_choices (en_choices e), trad_zh_question e,
                     encode_choices (trad_zh_choices e), str_int (orig_answer orig),
                     str_int (score e), differences e])"
    by (rule ext) (simp add: report_row_def)
  then show "csv_reader (concat (fout w)) =
        Inr (map ascii fieldnames #
             map (\<lambda>(e, orig).
                    [en_question e, encode_choices (en_choices e), trad_zh_question e,
                     encode_choices (trad_zh_choices e), str_int (orig_answer orig),
                     str_int (score e), differences e])
               (take (length (fout w) - 1) (zip evs srcs)))"
    if "report_writer py evs srcs = (w, r)"
    using report_file_reads_back(1)[OF that] by simp
qed

theorem report_csv_reads_back_witness:
  "csv_reader (concat (fout (fst (report_writer (python (\<lambda>c. True)) [tricky_evaluation]
                                     [load_entry water])))) =
     Inr [[ascii ''en_question'', ascii ''en_choices'', ascii ''trad_zh_question'',
           ascii ''trad_zh_choices'', ascii ''answer'', ascii ''score'', ascii ''differences''],
          [ascii ''What, then, is the boiling point of water?'',
           json_dumps [ascii ''100'' @ [176, 67], [34, 48, 34] @ [176, 67]],
           zh_water,
           json_dumps (choices_of water),
           ascii ''0'',
           ascii ''11'',
           ascii ''The question adds '' @ [34] @ ascii ''then'' @ [34, 44, 13, 10]
             @ ascii ''and two choices are missing'']] \<and>
   csv_writerow [[34, 44], [13, 10], []] = Inr [34, 34, 34, 44, 34, 44, 34, 13, 10, 34, 44, 13, 10] \<and>
   csv_reader [34, 34, 34, 44, 34, 44, 34, 13, 10, 34, 44, 13, 10] = Inr [[[34, 44], [13, 10], []]]"
  using report_csv_reads_back[of "[[34, 44], [13, 10], []]"
      "[34, 34, 34, 44, 34, 44, 34, 13, 10, 34, 44, 13, 10]" "python (\<lambda>c. True)"
      "[tricky_evaluation]" "[load_entry water]"
      "fst (report_writer (python (\<lambda>c. True)) [tricky_evaluation] [load_entry water])" None]
    tricky_run_fout
  by (simp add: prod_eq_iff)
     (simp add: fieldnames_def csv_writerow_def join_append_def needs_quoting_def
        sample_eval tricky_evaluation_def str_int_def str_nat.simps)


lemma str_int_in_range: "(str_int s \<in> str_int ` {0..10}) = (0 \<le> s \<and> s \<le> 10)"
  by (auto dest: str_int_inj)

text \<open>
  C2, as the code has it. The dict handed to the writer carries the score of the
  evaluation record unchanged, and its score cell is the decimal text of that score,
  written without any check: read back from
  the file, the score field of data row \<open>k\<close> is \<^verbatim>\<open>str\<close> of the score of evaluation \<open>k\<close>, and it
  is the text of an integer in [0, 10] exactly when that score lies in [0, 10].
\<close>

theorem score_written_unchecked:
  "score (make_out eval_entry orig_entry) = score eval_entry \<and>
   row_fields (make_out eval_entry orig_entry) ! 5 = str_int (score eval_entry) \<and>
   (report_writer py evs srcs = (w, r) \<longrightarrow>
     (\<exists>rows. csv_reader (concat (fout w)) = Inr (map ascii fieldnames # rows) \<and>
        length rows = length (fout w) - 1 \<and>
        (\<forall>k < length rows.
           rows ! k ! 5 = str_int (score (evs ! k)) \<and>
           ((rows ! k ! 5 \<in> str_int ` {0..10}) = (0 \<le> score (evs ! k) \<and> score (evs ! k) \<le> 10)))))"
proof (intro conjI impI)
  show "score (make_out eval_entry orig_entry) = score eval_entry"
    by (simp add: make_out_def)
  show "row_fields (make_out eval_entry orig_entry) ! 5 = str_int (score eval_entry)"
    by (simp add: row_fields_make_out)
next
  assume run: "report_writer py evs srcs = (w, r)"
  let ?rows = "map report_row (take (length (fout w) - 1) (zip evs srcs))"
  note rb = report_file_reads_back[OF run]
  have len: "length ?rows = length (fout w) - 1" using rb(2) by simp
  have row: "?rows ! k = report_row (evs ! k, srcs ! k)" if "k < length ?rows" for k
    using that rb(2) by simp
  show "\<exists>rows. csv_reader (concat (fout w)) = Inr (map ascii fieldnames # rows) \<and>
        length rows = length (fout w) - 1 \<and>
        (\<forall>k < length rows.
           rows ! k ! 5 = str_int (score (evs ! k)) \<and>
           ((rows ! k ! 5 \<in> str_int ` {0..10}) = (0 \<le> score (evs ! k) \<and> score (evs ! k) \<le> 10)))"
  proof (intro exI[of _ ?rows] conjI allI impI)
    show "csv_reader (concat (fout w)) = Inr (map ascii fieldnames # ?rows)" by (rule rb(1))
    show "length ?rows = length (fout w) - 1" by (rule len)
  next
    fix k assume k: "k < length ?rows"
    show cell: "?rows ! k ! 5 = str_int (score (evs ! k))"
      unfolding row[OF k] by (rule report_row_nth)
    show "(?rows ! k ! 5 \<in> str_int ` {0..10}) = (0 \<le> score (evs ! k) \<and> score (evs ! k) \<le> 10)"
      unfolding cell by (rule str_int_in_range)
  qed
qed

lemma tricky_rows:
  "csv_reader (concat (fout (fst (report_writer (python (\<lambda>c. True)) [tricky_evaluation]
                                     [load_entry water])))) =
     Inr [map ascii fieldnames, report_row (tricky_evaluation, load_entry water)]"
  using report_file_reads_back(1)[of "python (\<lambda>c. True)" "[tricky_evaluation]" "[load_entry water]"
      "fst (report_writer (python (\<lambda>c. True)) [tricky_evaluation] [load_entry water])" None]
    tricky_run_fout
  by (simp add: prod_eq_iff)

theorem score_written_unchecked_witness:
  "snd (report_writer (python (\<lambda>c. True)) [water_evaluation] [load_entry water]) = None \<and>
   (\<exists>rows. csv_reader (concat (fout (fst (report_writer (python (\<lambda>c. True)) [water_evaluation]
                                               [load_entry water]))))
             = Inr (map ascii fieldnames # rows) \<and>
           length rows = 1 \<and> rows ! 0 ! 5 = ascii ''10'' \<and> score (water_evaluation) = 10)"
proof -
  let ?w = "fst (report_writer (python (\<lambda>c. True)) [water_evaluation] [load_entry water])"
  have len: "length (fout ?w) = 2"
    by (simp add: report_eval csv_eval python_eval json_eval sample_eval)
  have run: "report_writer (python (\<lambda>c. True)) [water_evaluation] [load_entry water] = (?w, None)"
    using water_run by (simp add: prod_eq_iff)
  from score_written_unchecked[of water_evaluation "load_entry water" "python (\<lambda>c. True)"
      "[water_evaluation]" "[load_entry water]" ?w None] run len
  obtain rows where
    "csv_reader (concat (fout ?w)) = Inr (map ascii fieldnames # rows)" "length rows = 1"
    "rows ! 0 ! 5 = str_int (score water_evaluation)"
    by auto
  moreover have "str_int (score water_evaluation) = ascii ''10''" "score water_evaluation = 10"
    by (simp_all add: water_evaluation_def str_int_def str_nat.simps)
  ultimately show ?thesis using water_run by auto
qed

text \<open>
  C2 as stated fails: an evaluation whose score is 11 is written as it is, and the score
  field of its row is \<^verbatim>\<open>11\<close>.
\<close>

theorem score_out_of_range_counterexample:
  "score tricky_evaluation = 11 \<and>
   snd (report_writer (python (\<lambda>c. True)) [tricky_evaluation] [load_entry water]) = None \<and>
   csv_reader (concat (fout (fst (report_writer (python (\<lambda>c. True)) [tricky_evaluation]
                                     [load_entry water])))) =
     Inr [map ascii fieldnames, report_row (tricky_evaluation, load_entry water)] \<and>
   report_row (tricky_evaluation, load_entry water) ! 5 = ascii ''11'' \<and>
   ascii ''11'' \<notin> str_int ` {0..10}"
proof -
  have s: "str_int 11 = ascii ''11''" by (simp add: str_int_def str_nat.simps)
  have "str_int 11 \<notin> str_int ` {0..10}" using str_int_in_range[of 11] by simp
  with s tricky_rows tricky_run_fout(1) show ?thesis
    by (simp add: report_row_nth tricky_evaluation_def)
qed

text \<open>
  C4. In the dict handed to the writer, and so in the row read back from the file for every
  record the report writer writes, the \<^verbatim>\<open>en_choices\<close> and \<^verbatim>\<open>trad_zh_choices\<close> cells hold the JSON text of the list when the field held a list, and the
  text itself, unchanged, when it held a text. So a field that was a list, or was already
  the JSON text of a list, is written as that JSON text, which decodes to the list: it is
  encoded once, never twice.
\<close>

theorem choices_cells_encoded_once:
  "en_choices (make_out eval_entry orig_entry) =
     (case en_choices eval_entry of ChoiceList lst \<Rightarrow> json_dumps lst | ChoiceText t \<Rightarrow> t) \<and>
   trad_zh_choices (make_out eval_entry orig_entry) =
     (case trad_zh_choices eval_entry of ChoiceList lst \<Rightarrow> json_dumps lst | ChoiceText t \<Rightarrow> t) \<and>
   (report_writer py evs srcs = (w, r) \<longrightarrow>
     (\<exists>rows. csv_reader (concat (fout w)) = Inr (map ascii fieldnames # rows) \<and>
        length rows = length (fout w) - 1 \<and>
        (\<forall>k < length rows.
           rows ! k ! 1 = (case en_choices (evs ! k) of
                             ChoiceList lst \<Rightarrow> json_dumps lst | ChoiceText t \<Rightarrow> t) \<and>
           rows ! k ! 3 = (case trad_zh_choices (evs ! k) of
                             ChoiceList lst \<Rightarrow> json_dumps lst | ChoiceText t \<Rightarrow> t) \<and>
           (\<forall>lst. en_choices (evs ! k) = ChoiceList lst \<or>
                   en_choices (evs ! k) = ChoiceText (json_dumps lst) \<longrightarrow>
                     rows ! k ! 1 = json_dumps lst \<and> json_loads (rows ! k ! 1) = Inr lst) \<and>
           (\<forall>lst. trad_zh_choices (evs ! k) = ChoiceList lst \<or>
                   trad_zh_choices (evs ! k) = ChoiceText (json_dumps lst) \<longrightarrow>
                     rows ! k ! 3 = json_dumps lst \<and> json_loads (rows ! k ! 3) = Inr lst))))"
proof (intro conjI impI)
  show "en_choices (make_out eval_entry orig_entry) =
     (case en_choices eval_entry of ChoiceList lst \<Rightarrow> json_dumps lst | ChoiceText t \<Rightarrow> t)"
    by (simp add: make_out_def split: choices.splits)
  show "trad_zh_choices (make_out eval_entry orig_entry) =
     (case trad_zh_choices eval_entry of ChoiceList lst \<Rightarrow> json_dumps lst | ChoiceText t \<Rightarrow> t)"
    by (simp add: make_out_def split: choices.splits)
next
  assume run: "report_writer py evs srcs = (w, r)"
  let ?rows = "map report_row (take (length (fout w) - 1) (zip evs srcs))"
  note rb = report_file_reads_back[OF run]
  have len: "length ?rows = length (fout w) - 1" using rb(2) by simp
  have row: "?rows ! k = report_row (evs ! k, srcs ! k)" if "k < length ?rows" for k
    using that rb(2) by simp
  have cells: "?rows ! k ! 1 = encode_choices (en_choices (evs ! k))"
      "?rows ! k ! 3 = encode_choices (trad_zh_choices (evs ! k))" if "k < length ?rows" for k
    unfolding row[OF that] by (rule report_row_nth)+
  have enc: "encode_choices c = (case c of ChoiceList lst \<Rightarrow> json_dumps lst | ChoiceText t \<Rightarrow> t)"
    for c by (cases c) simp_all
  have once: "c = ChoiceList lst \<or> c = ChoiceText (json_dumps lst) \<Longrightarrow>
      encode_choices c = json_dumps lst \<and> json_loads (encode_choices c) = Inr lst" for c lst
    by (auto simp: json_loads_dumps)
  show "\<exists>rows. csv_reader (concat (fout w)) = Inr (map ascii fieldnames # rows) \<and>
        length rows = length (fout w) - 1 \<and>
        (\<forall>k < length rows.
           rows ! k ! 1 = (case en_choices (evs ! k) of
                             ChoiceList lst \<Rightarrow> json_dumps lst | ChoiceText t \<Rightarrow> t) \<and>
           rows ! k ! 3 = (case trad_zh_choices (evs ! k) of
                             ChoiceList lst \<Rightarrow> json_dumps lst | ChoiceText t \<Rightarrow> t) \<and>
           (\<forall>lst. en_choices (evs ! k) = ChoiceList lst \<or>
                   en_choices (evs ! k) = ChoiceText (json_dumps lst) \<longrightarrow>
                     rows ! k ! 1 = json_dumps lst \<and> json_loads (rows ! k ! 1) = Inr lst) \<and>
           (\<forall>lst. trad_zh_choices (evs ! k) = ChoiceList lst \<or>
                   trad_zh_choices (evs ! k) = ChoiceText (json_dumps lst) \<longrightarrow>
                     rows ! k ! 3 = json_dumps lst \<and> json_loads (rows ! k ! 3) = Inr lst))"
  proof (intro exI[of _ ?rows] conjI allI impI)
    show "csv_reader (concat (fout w)) = Inr (map ascii fieldnames # ?rows)" by (rule rb(1))
    show "length ?rows = length (fout w) - 1" by (rule len)
  next
    fix k assume k: "k < length ?rows"
    show "?rows ! k ! 1 = (case en_choices (evs ! k) of
                             ChoiceList lst \<Rightarrow> json_dumps lst | ChoiceText t \<Rightarrow> t)"
      unfolding cells(1)[OF k] by (rule enc)
    show "?rows ! k ! 3 = (case trad_zh_choices (evs ! k) of
                             ChoiceList lst \<Rightarrow> json_dumps lst | ChoiceText t \<Rightarrow> t)"
      unfolding cells(2)[OF k] by (rule enc)
  next
    fix k lst assume k: "k < length ?rows"
      and c: "en_choices (evs ! k) = ChoiceList lst \<or> en_choices (evs ! k) = ChoiceText (json_dumps lst)"
    from once[OF c] show "?rows ! k ! 1 = json_dumps lst" "json_loads (?rows ! k ! 1) = Inr lst"
      unfolding cells(1)[OF k] by (simp_all add: json_loads_dumps)
  next
    fix k lst assume k: "k < length ?rows"
      and c: "trad_zh_choices (evs ! k) = ChoiceList lst \<or>
              trad_zh_choices (evs ! k) = ChoiceText (json_dumps lst)"
    from once[OF c] show "?rows ! k ! 3 = json_dumps lst" "json_loads (?rows ! k ! 3) = Inr lst"
      unfolding cells(2)[OF k] by (simp_all add: json_loads_dumps)
  qed
qed

theorem choices_cells_encoded_once_witness:
  "en_choices tricky_evaluation = ChoiceList [ascii ''100'' @ [176, 67], [34, 48, 34] @ [176, 67]] \<and>
   trad_zh_choices tricky_evaluation = ChoiceText (json_dumps (choices_of water)) \<and>
   (\<exists>rows. csv_reader (concat (fout (fst (report_writer (python (\<lambda>c. True)) [tricky_evaluation]
                                               [load_entry water]))))
             = Inr (map ascii fieldnames # rows) \<and>
           length rows = 1 \<and>
           rows ! 0 ! 1 = json_dumps [ascii ''100'' @ [176, 67], [34, 48, 34] @ [176, 67]] \<and>
           rows ! 0 ! 3 = json_dumps (choices_of water) \<and>
           json_loads (rows ! 0 ! 3) = Inr (choices_of water))"
proof -
  let ?w = "fst (report_writer (python (\<lambda>c. True)) [tricky_evaluation] [load_entry water])"
  have run: "report_writer (python (\<lambda>c. True)) [tricky_evaluation] [load_entry water] = (?w, None)"
    using tricky_run_fout(1) by (simp add: prod_eq_iff)
  have e: "en_choices tricky_evaluation = ChoiceList [ascii ''100'' @ [176, 67], [34, 48, 34] @ [176, 67]]"
    and z: "trad_zh_choices tricky_evaluation = ChoiceText (json_dumps (choices_of water))"
    by (simp_all add: tricky_evaluation_def)
  from choices_cells_encoded_once[of tricky_evaluation "load_entry water" "python (\<lambda>c. True)"
      "[tricky_evaluation]" "[load_entry water]" ?w None] run tricky_run_fout(2)
  obtain rows where rows: "csv_reader (concat (fout ?w)) = Inr (map ascii fieldnames # rows)"
    "length rows = 1"
    "rows ! 0 ! 1 = (case en_choices tricky_evaluation of
                             ChoiceList lst \<Rightarrow> json_dumps lst | ChoiceText t \<Rightarrow> t)"
    "\<forall>lst. trad_zh_choices tricky_evaluation = ChoiceList lst \<or>
            trad_zh_choices tricky_evaluation = ChoiceText (json_dumps lst) \<longrightarrow>
              rows ! 0 ! 3 = json_dumps lst \<and> json_loads (rows ! 0 ! 3) = Inr lst"
    by auto
  from rows(4) z have "rows ! 0 ! 3 = json_dumps (choices_of water)"
    "json_loads (rows ! 0 ! 3) = Inr (choices_of water)" by auto
  with rows(1,2,3) e z show ?thesis by auto
qed

text \<open>
  C7. Decoding the JSON text of a list of strings gives the list back, whatever characters
  the strings hold: quotes, backslashes, control characters, non-ASCII characters.
\<close>

theorem json_round_trip: "json_loads (json_dumps choices_list) = Inr choices_list"
  by (rule json_loads_dumps)

theorem json_round_trip_witness:
  "json_dumps [[34, 97, 34], [233, 27700, 128512, 92], [10, 0, 31]] =
     ascii ''['' @ [34, 92, 34, 97, 92, 34, 34] @ ascii '', '' @ [34, 233, 27700, 128512, 92, 92, 34]
       @ ascii '', '' @ [34, 92, 110, 92, 117, 48, 48, 48, 48, 92, 117, 48, 48, 49, 102, 34]
       @ ascii '']'' \<and>
   json_loads (json_dumps [[34, 97, 34], [233, 27700, 128512, 92], [10, 0, 31]]) =
     Inr [[34, 97, 34], [233, 27700, 128512, 92], [10, 0, 31]]"
  using json_round_trip[of "[[34, 97, 34], [233, 27700, 128512, 92], [10, 0, 31]]"]
  by (simp add: json_dumps_def py_encode_basestring_def ESCAPE_def ESCAPE_DCT_def hex_digit_def
      hex4_small del: hex.simps)

end
